theory Spec2Isabelle
  imports Complex_Main "HOL-Library.Sublist"
begin

section \<open>The sliding-window rate limiter (src/api/gemini.js, lines 82-95 and 114-133)\<close>

text \<open>
  The module-level variables \<open>requestTimes\<close> and \<open>limitReached\<close> are the limiter's state.
  \<open>Date.now()\<close> is an integer number of milliseconds; it is passed in as \<open>now\<close>.
\<close>

definition WINDOW_MS :: int where
  "WINDOW_MS = 60000"

definition MAX_REQ :: nat where
  "MAX_REQ = 10"

record limiter =
  requestTimes :: "int list"
  limitReached :: bool

text \<open>\<open>requestTimes.filter(t => now - t < WINDOW_MS)\<close>\<close>

definition prune :: "int \<Rightarrow> int list \<Rightarrow> int list" where
  "prune now ts = filter (\<lambda>t. now - t < WINDOW_MS) ts"

text \<open>
  \<open>geminiRateLimiter()\<close>: the pruned list is stored back in either branch, the flag is
  updated, and \<open>now\<close> is pushed only when the call is admitted.
\<close>

definition geminiRateLimiter :: "int \<Rightarrow> limiter \<Rightarrow> bool \<times> limiter" where
  "geminiRateLimiter now st =
     (let ts = prune now (requestTimes st);
          reached = (length ts \<ge> MAX_REQ)
      in if reached then (False, \<lparr>requestTimes = ts, limitReached = reached\<rparr>)
         else (True, \<lparr>requestTimes = ts @ [now], limitReached = reached\<rparr>))"

text \<open>The body of the \<open>GET /api/gemini/limit\<close> response.\<close>

record limit_body =
  limit :: nat
  remaining :: int
  windowMs :: int
  secondsRemaining :: int

text \<open>
  The limit endpoint (lines 116-132). \<open>requestTimes[0]\<close> is read only when the list is
  not empty; \<open>Math.ceil(msRemaining / 1000)\<close> is the ceiling of the exact quotient.
\<close>

definition limit_status :: "int \<Rightarrow> limiter \<Rightarrow> limit_body \<times> limiter" where
  "limit_status now st =
     (let ts = prune now (requestTimes st);
          reached = (length ts \<ge> MAX_REQ);
          remaining = max 0 (int MAX_REQ - int (length ts));
          msRemaining = (if reached \<and> ts \<noteq> [] then max 0 (WINDOW_MS - (now - hd ts)) else 0);
          secondsRemaining = \<lceil>real_of_int msRemaining / 1000\<rceil>
      in (\<lparr>limit = (if reached then 1 else 0), remaining = remaining,
           windowMs = WINDOW_MS, secondsRemaining = secondsRemaining\<rparr>,
          \<lparr>requestTimes = ts, limitReached = reached\<rparr>))"

section \<open>Text helpers\<close>

text \<open>
  A JavaScript string is a sequence of code units; the model uses HOL strings, that is
  code units below 256. \<open>String.prototype.trim\<close> strips white space and line
  terminators; below 256 these are TAB, LF, VT, FF, CR, SP and NBSP.
\<close>

definition LF :: char where
  "LF = CHR 0x0A"

definition CR :: char where
  "CR = CHR 0x0D"

definition isSpace :: "char \<Rightarrow> bool" where
  "isSpace c = (c \<in> {CHR 0x09, CHR 0x0A, CHR 0x0B, CHR 0x0C, CHR 0x0D, CHR 0x20, CHR 0xA0})"

definition trim :: "string \<Rightarrow> string" where
  "trim s = rev (dropWhile isSpace (rev (dropWhile isSpace s)))"

text \<open>
  \<open>toLowerCase\<close>, code unit by code unit: A-Z and the Latin-1 capitals (0xC0-0xDE
  without the multiplication sign 0xD7) move up by 32.
\<close>

definition lowerChar :: "char \<Rightarrow> char" where
  "lowerChar c =
     (let n = (of_char c :: nat)
      in if (65 \<le> n \<and> n \<le> 90) \<or> (192 \<le> n \<and> n \<le> 222 \<and> n \<noteq> 215)
         then char_of (n + 32) else c)"

definition toLowerCase :: "string \<Rightarrow> string" where
  "toLowerCase s = map lowerChar s"

definition startsWith :: "string \<Rightarrow> string \<Rightarrow> bool" where
  "startsWith s p = prefix p s"

text \<open>\<open>s.indexOf(pat)\<close>: the first index at which \<open>pat\<close> occurs, \<open>None\<close> for -1.\<close>

fun indexOf :: "string \<Rightarrow> string \<Rightarrow> nat option" where
  "indexOf [] pat = (if pat = [] then Some 0 else None)"
| "indexOf (c # cs) pat =
     (if prefix pat (c # cs) then Some 0 else map_option Suc (indexOf cs pat))"

text \<open>
  \<open>frame.split(/\r?\n/)\<close>: the scan matches CR LF or LF at the leftmost position and
  cuts there; the empty string splits into one empty piece.
\<close>

fun split_lines :: "string \<Rightarrow> string list" where
  "split_lines [] = [[]]"
| "split_lines (c # cs) =
     (if c = CR \<and> (case cs of [] \<Rightarrow> False | d # _ \<Rightarrow> d = LF) then [] # split_lines (tl cs)
      else if c = LF then [] # split_lines cs
      else (case split_lines cs of [] \<Rightarrow> [[c]] | l # ls \<Rightarrow> (c # l) # ls))"

section \<open>JSON values and the payload extractor\<close>

text \<open>
  The values that \<open>JSON.parse\<close> returns. A number carries the exact value of the
  double; an object is its list of properties, each key once, looked up with \<open>map_of\<close>.
  \<open>JSON.parse\<close> itself belongs to the runtime: it is the parameter \<open>parse\<close> below,
  \<open>None\<close> when it throws.
\<close>

datatype json =
    JNull
  | JBool bool
  | JNum rat
  | JString string
  | JArray "json list"
  | JObject "(string \<times> json) list"

text \<open>
  Optional chaining \<open>x?.name\<close> for the names the handlers read (candidates, content,
  parts, text): \<open>None\<close> is \<open>undefined\<close>. Only an object can own such a property.
\<close>

fun opt_prop :: "json option \<Rightarrow> string \<Rightarrow> json option" where
  "opt_prop (Some (JObject kvs)) name = map_of kvs name"
| "opt_prop _ name = None"

text \<open>Optional chaining \<open>x?.[0]\<close>.\<close>

fun opt_first :: "json option \<Rightarrow> json option" where
  "opt_first (Some (JArray xs)) = (case xs of [] \<Rightarrow> None | x # _ \<Rightarrow> Some x)"
| "opt_first (Some (JObject kvs)) = map_of kvs ''0''"
| "opt_first (Some (JString s)) = (case s of [] \<Rightarrow> None | c # _ \<Rightarrow> Some (JString [c]))"
| "opt_first _ = None"

fun truthy :: "json option \<Rightarrow> bool" where
  "truthy None = False"
| "truthy (Some JNull) = False"
| "truthy (Some (JBool b)) = b"
| "truthy (Some (JNum n)) = (n \<noteq> 0)"
| "truthy (Some (JString s)) = (s \<noteq> [])"
| "truthy (Some (JArray xs)) = True"
| "truthy (Some (JObject kvs)) = True"

text \<open>What the handler writes to the response stream with \<open>res.write\<close>.\<close>

datatype sse =
    Ping
  | DataEvent string
  | DoneEvent
  | DoneData
  | ErrorEvent string

text \<open>
  The text of each write; \<open>JSON.stringify\<close> on a string is the parameter
  \<open>stringify\<close>.
\<close>

fun wire :: "(string \<Rightarrow> string) \<Rightarrow> sse \<Rightarrow> string" where
  "wire stringify Ping = '': ping\<newline>\<newline>''"
| "wire stringify (DataEvent t) = ''data: '' @ stringify t @ ''\<newline>\<newline>''"
| "wire stringify DoneEvent = ''event: done\<newline>''"
| "wire stringify DoneData = ''data: '' @ [CHR 0x22] @ ''[DONE]'' @ [CHR 0x22] @ ''\<newline>\<newline>''"
| "wire stringify (ErrorEvent m) = ''event: error\<newline>data: '' @ stringify m @ ''\<newline>\<newline>''"

text \<open>
  \<open>emitTextsFromObj\<close> (stream.js lines 51-65, gemini.js lines 207-221): the texts it
  writes, in order.
\<close>

definition partTexts :: "json \<Rightarrow> string list" where
  "partTexts p =
     (case opt_prop (Some p) ''text'' of
        Some (JString t) \<Rightarrow> (if t \<noteq> [] then [t] else [])
      | _ \<Rightarrow> [])"

definition candidateTexts :: "json \<Rightarrow> string list" where
  "candidateTexts c =
     (case opt_prop (opt_prop (Some c) ''content'') ''parts'' of
        Some (JArray ps) \<Rightarrow> concat (map partTexts ps)
      | _ \<Rightarrow> [])"

definition emitTextsFromObj :: "json \<Rightarrow> sse list" where
  "emitTextsFromObj obj =
     (case opt_prop (Some obj) ''candidates'' of
        Some (JArray cs) \<Rightarrow> map DataEvent (concat (map candidateTexts cs))
      | _ \<Rightarrow> [])"

text \<open>
  The body of both scanning loops (stream.js lines 74-78 and 85-89, the same text in
  gemini.js): what one raw line makes the handler write.
\<close>

definition processLine :: "(string \<Rightarrow> json option) \<Rightarrow> string \<Rightarrow> sse list" where
  "processLine parse rawLine =
     (let line = trim rawLine
      in if line = [] \<or> startsWith line '':'' \<or> startsWith (toLowerCase line) ''event:'' then []
         else let line' = (if startsWith (toLowerCase line) ''data:'' then trim (drop 5 line) else line)
              in if line' = [] then []
                 else (case parse line' of None \<Rightarrow> [] | Some obj \<Rightarrow> emitTextsFromObj obj))"

definition processFrame :: "(string \<Rightarrow> json option) \<Rightarrow> string \<Rightarrow> sse list" where
  "processFrame parse frame = concat (map (processLine parse) (split_lines frame))"

section \<open>The frame reassembler: \<open>handleText\<close>\<close>

text \<open>
  The first loop of \<open>handleText\<close>: the frames it cuts at each double newline, and the
  buffer it leaves.
\<close>

function primary_loop :: "string \<Rightarrow> string list \<times> string" where
  "primary_loop buffer =
     (case indexOf buffer ''\<newline>\<newline>'' of
        None \<Rightarrow> ([], buffer)
      | Some frameIdx \<Rightarrow>
          (let frame = take frameIdx buffer;
               (frames, rest) = primary_loop (drop (frameIdx + 2) buffer)
           in (frame # frames, rest)))"
  by pat_completeness auto
termination
proof (relation "measure length")
  show "wf (measure length)" by simp
next
  fix buffer :: string and frameIdx
  assume "indexOf buffer ''\<newline>\<newline>'' = Some frameIdx"
  then have "buffer \<noteq> []" by (cases buffer) auto
  then show "(drop (frameIdx + 2) buffer, buffer) \<in> measure length" by simp
qed

text \<open>The second loop: the lines it cuts at each single newline, and the buffer it leaves.\<close>

function fallback_loop :: "string \<Rightarrow> string list \<times> string" where
  "fallback_loop buffer =
     (case indexOf buffer ''\<newline>'' of
        None \<Rightarrow> ([], buffer)
      | Some idx \<Rightarrow>
          (let line0 = take idx buffer;
               (lines, rest) = fallback_loop (drop (idx + 1) buffer)
           in (line0 # lines, rest)))"
  by pat_completeness auto
termination
proof (relation "measure length")
  show "wf (measure length)" by simp
next
  fix buffer :: string and idx
  assume "indexOf buffer ''\<newline>'' = Some idx"
  then have "buffer \<noteq> []" by (cases buffer) auto
  then show "(drop (idx + 1) buffer, buffer) \<in> measure length" by simp
qed

declare primary_loop.simps [simp del]
declare fallback_loop.simps [simp del]

text \<open>
  \<open>handleText\<close> (stream.js lines 67-91, gemini.js lines 223-249): the chunk is appended,
  the double-newline loop runs, then the single-newline loop runs on what is left. The
  writes do not touch the buffer, so the model cuts first and writes afterwards, in the
  order of the source. The result is the frames, the single lines, the writes and the new
  buffer.
\<close>

definition handleText ::
  "(string \<Rightarrow> json option) \<Rightarrow> string \<Rightarrow> string \<Rightarrow> string list \<times> string list \<times> sse list \<times> string" where
  "handleText parse buffer textChunk =
     (let (frames, b1) = primary_loop (buffer @ textChunk);
          (lines, b2) = fallback_loop b1
      in (frames, lines,
          concat (map (processFrame parse) frames) @ concat (map (processLine parse) lines), b2))"


text \<open>
  What each \<open>handleText\<close> call cuts: a frame of the double-newline loop or a line of the
  single-newline loop.
\<close>

datatype cut = Frame string | Line string

text \<open>
  The chunks of one stream driven through \<open>handleText\<close>, starting from a buffer: all
  cuts, all writes, and the buffer at the end.
\<close>

fun feed ::
  "(string \<Rightarrow> json option) \<Rightarrow> string \<Rightarrow> string list \<Rightarrow> cut list \<times> sse list \<times> string" where
  "feed parse buffer [] = ([], [], buffer)"
| "feed parse buffer (chunk # chunks) =
     (let (frames, lines, ws, b) = handleText parse buffer chunk;
          (cuts, ws', b') = feed parse b chunks
      in (map Frame frames @ map Line lines @ cuts, ws @ ws', b'))"

text \<open>The end of the stream: \<open>if (buffer.trim()) handleText('\n')\<close>.\<close>

definition end_flush ::
  "(string \<Rightarrow> json option) \<Rightarrow> string \<Rightarrow> cut list \<times> sse list \<times> string" where
  "end_flush parse buffer =
     (if trim buffer \<noteq> [] then
        (let (frames, lines, ws, b) = handleText parse buffer ''\<newline>''
         in (map Frame frames @ map Line lines, ws, b))
      else ([], [], buffer))"

text \<open>A whole stream: the chunks from the empty buffer, then the end of the stream.\<close>

definition reassemble :: "(string \<Rightarrow> json option) \<Rightarrow> string list \<Rightarrow> cut list \<times> sse list" where
  "reassemble parse chunks =
     (let (cuts, ws, b) = feed parse [] chunks;
          (cuts', ws', b') = end_flush parse b
      in (cuts @ cuts', ws @ ws'))"

section \<open>Requests, the upstream call and the effects of a handler\<close>

text \<open>
  A handler is modelled by the calls it makes, in order: on the response object, on the
  heartbeat timer and on \<open>fetch\<close>. \<open>console.log\<close> is left out.
\<close>

datatype effect =
    SetHeader string string
  | FlushHeaders
  | Status nat
  | Json json
  | Write sse
  | EndRes
  | SetInterval
  | ClearInterval
  | Fetch string

text \<open>
  The body of the upstream response is a web stream with \<open>getReader\<close>, a Node stream
  with \<open>on\<close>, an async iterable, or none of them.
\<close>

datatype shape = WebReader | NodeEmitter | AsyncIterable | UnknownShape

text \<open>
  The response that \<open>fetch\<close> resolves to. \<open>up_detail\<close> is the string the handlers read
  off an error body (\<open>j?.error?.message || JSON.stringify(j)\<close>, or the body text);
  \<open>up_data\<close> is the result of \<open>json()\<close>, \<open>Inl\<close> with the message when it throws.
\<close>

record upstream =
  up_status :: nat
  up_statusText :: string
  up_detail :: string
  up_body :: "shape option"
  up_data :: "string + json"

datatype fetch_result = NetworkError string | Response upstream

definition ok :: "upstream \<Rightarrow> bool" where
  "ok up = (200 \<le> up_status up \<and> up_status up \<le> 299)"

text \<open>
  What the body stream and the heartbeat timer deliver after the handler has set up.
  \<open>Data\<close> carries the text that the decoder returns for one chunk.
\<close>

datatype stream_event = Tick | Data string | End | Error string

text \<open>
  The surroundings of one exchange: the key from the environment, \<open>Date.now()\<close>, whether
  the response object has \<open>flushHeaders\<close>, the outcome of \<open>fetch\<close>, the number of
  heartbeat ticks that fire while an upstream call is awaited with the timer already
  armed, and the events of the body stream.
\<close>

record env =
  env_apiKey :: string
  env_now :: int
  env_hasFlush :: bool
  env_fetch :: fetch_result
  env_pings :: nat
  env_events :: "stream_event list"

text \<open>
  A request: the method, the subpath as lines 109-112 of gemini.js normalise it, and the
  prompt of the body, \<open>None\<close> when it is absent or not a string.
\<close>

record request =
  req_method :: string
  req_subpath :: string
  req_prompt :: "string option"

text \<open>
  The state of an exchange once the handler has returned: the calls so far, whether the
  heartbeat timer is armed, the text buffer, whether the events of the body stream still
  reach the handler, and whether the body is a Node stream. The reader loop and the
  iteration stop at the end of the stream and at a failure; the listeners that the
  handler puts on a Node stream are never removed.
\<close>

record session =
  trace :: "effect list"
  hb :: bool
  buffer :: string
  live :: bool
  emitter :: bool

definition INPUT_TOKEN_LIMIT :: nat where
  "INPUT_TOKEN_LIMIT = 50000"

definition APPROX_CHARS_PER_TOKEN :: nat where
  "APPROX_CHARS_PER_TOKEN = 4"

definition maxChars :: nat where
  "maxChars = max 0 (INPUT_TOKEN_LIMIT * APPROX_CHARS_PER_TOKEN)"

text \<open>\<open>res.headersSent\<close>: the headers go out with the first flush, write, json or end.\<close>

fun sends :: "effect \<Rightarrow> bool" where
  "sends FlushHeaders = True"
| "sends (Json j) = True"
| "sends (Write w) = True"
| "sends EndRes = True"
| "sends e = False"

definition headersSent :: "effect list \<Rightarrow> bool" where
  "headersSent tr = list_ex sends tr"

definition cors :: "effect list" where
  "cors = [SetHeader ''Access-Control-Allow-Origin'' ''*'',
           SetHeader ''Access-Control-Allow-Methods'' ''GET,POST,OPTIONS'',
           SetHeader ''Access-Control-Allow-Headers'' ''Content-Type, Authorization'',
           SetHeader ''Access-Control-Max-Age'' ''86400'']"

definition sse_headers :: "bool \<Rightarrow> effect list" where
  "sse_headers hasFlush =
     [SetHeader ''Content-Type'' ''text/event-stream'',
      SetHeader ''Cache-Control'' ''no-cache, no-transform'',
      SetHeader ''Connection'' ''keep-alive'',
      SetHeader ''Access-Control-Allow-Origin'' ''*''] @ (if hasFlush then [FlushHeaders] else [])"

definition error_body :: "string \<Rightarrow> json" where
  "error_body msg = JObject [(''error'', JString msg)]"

text \<open>\<open>m || d\<close> on strings.\<close>

definition or_default :: "string \<Rightarrow> string \<Rightarrow> string" where
  "or_default m d = (if m = [] then d else m)"

text \<open>\<open>!prompt || typeof prompt !== 'string'\<close> is false: the prompt is a non-empty string.\<close>

definition valid_prompt :: "string option \<Rightarrow> bool" where
  "valid_prompt p = (case p of None \<Rightarrow> False | Some s \<Rightarrow> s \<noteq> [])"

text \<open>A number in a template string.\<close>

fun decimal :: "nat \<Rightarrow> string" where
  "decimal n =
     (if n < 10 then [''0123456789'' ! n] else decimal (n div 10) @ [''0123456789'' ! (n mod 10)])"

declare decimal.simps [simp del]

text \<open>A response that is complete when the handler returns: no timer, nothing to read.\<close>

definition finished :: "effect list \<Rightarrow> session" where
  "finished tr = \<lparr>trace = tr, hb = False, buffer = [], live = False, emitter = False\<rparr>"

text \<open>\<open>data?.candidates?.[0]?.content?.parts?.[0]?.text || ''\<close>\<close>

definition first_part_text :: "json \<Rightarrow> json option" where
  "first_part_text d =
     opt_prop (opt_first (opt_prop (opt_prop (opt_first (opt_prop (Some d) ''candidates''))
       ''content'') ''parts'')) ''text''"

definition first_text :: "json \<Rightarrow> json" where
  "first_text d =
     (case first_part_text d of
        None \<Rightarrow> JString []
      | Some v \<Rightarrow> (if truthy (Some v) then v else JString []))"


section \<open>The router handler (src/api/gemini.js)\<close>

text \<open>
  \<open>generateContent\<close> (lines 21-50): the calls it makes and its result, \<open>Inl\<close> with the
  message of the error it throws.
\<close>

definition generateContent :: "env \<Rightarrow> string \<Rightarrow> effect list \<times> (string + json)" where
  "generateContent e prompt =
     (if env_apiKey e = [] then
        ([], Inl ''Missing Gemini API key. Set GEMINI_API_KEY or GOOGLE_GEMINI_API_KEY in environment'')
      else if length prompt > maxChars then ([], Inl ''Input too long, 50k tokens max'')
      else (case env_fetch e of
              NetworkError m \<Rightarrow> ([Fetch prompt], Inl m)
            | Response up \<Rightarrow>
                if \<not> ok up then
                  ([Fetch prompt],
                   Inl (''Gemini API error '' @ decimal (up_status up) @ '' '' @ up_statusText up @
                        (if up_detail up \<noteq> [] then '': '' @ up_detail up else [])))
                else (case up_data up of
                        Inl m \<Rightarrow> ([Fetch prompt], Inl m)
                      | Inr d \<Rightarrow> ([Fetch prompt], Inr (first_text d)))))"

text \<open>\<open>streamGenerateContent\<close> (lines 52-80).\<close>

definition streamGenerateContent :: "env \<Rightarrow> string \<Rightarrow> effect list \<times> (string + upstream)" where
  "streamGenerateContent e prompt =
     (if env_apiKey e = [] then
        ([], Inl ''Missing Gemini API key. Set GEMINI_API_KEY or GOOGLE_GEMINI_API_KEY in environment'')
      else if length prompt > maxChars then ([], Inl ''Input too long, 50k tokens max'')
      else (case env_fetch e of
              NetworkError m \<Rightarrow> ([Fetch prompt], Inl m)
            | Response up \<Rightarrow>
                if \<not> ok up \<or> up_body up = None then
                  ([Fetch prompt],
                   Inl (''Gemini streaming error '' @ decimal (up_status up) @ '' '' @ up_statusText up @
                        (if up_detail up \<noteq> [] then '': '' @ up_detail up else [])))
                else ([Fetch prompt], Inr up)))"

text \<open>The status of the two completion routes' \<open>catch\<close>: \<open>e.message.includes('tokens max')\<close>.\<close>

definition catch_status :: "string \<Rightarrow> nat" where
  "catch_status m = (if indexOf m ''tokens max'' \<noteq> None then 400 else 500)"

text \<open>The route \<open>''\<close> (lines 147-158).\<close>

definition route_completion :: "env \<Rightarrow> request \<Rightarrow> effect list" where
  "route_completion e req =
     (if \<not> valid_prompt (req_prompt req) then [Status 400, Json (error_body ''Missing prompt'')]
      else (let (effs, r) = generateContent e (the (req_prompt req))
            in effs @
               (case r of
                  Inr text \<Rightarrow> [Status 200, Json (JObject [(''text'', text)])]
                | Inl m \<Rightarrow> [Status (catch_status m), Json (error_body (or_default m ''Gemini request failed''))])))"

text \<open>The route \<open>silent\<close> (lines 161-173).\<close>

definition route_silent :: "env \<Rightarrow> request \<Rightarrow> effect list" where
  "route_silent e req =
     (if \<not> valid_prompt (req_prompt req) then [Status 400, EndRes]
      else (let (effs, r) = generateContent e (the (req_prompt req))
            in effs @
               (case r of
                  Inr text \<Rightarrow> [Status 204, EndRes]
                | Inl m \<Rightarrow> [Status (catch_status m), EndRes])))"

text \<open>
  The \<open>catch\<close> of the route \<open>stream\<close> (lines 301-308). The timer \<open>hb\<close> is a constant of
  the \<open>try\<close> block: the \<open>catch\<close> does not clear it.
\<close>

definition catch_stream :: "effect list \<Rightarrow> string \<Rightarrow> session" where
  "catch_stream tr m =
     \<lparr>trace = (if \<not> headersSent tr
                then tr @ [Status 500, Json (error_body (or_default m ''Gemini stream failed''))]
                else tr @ [Write (ErrorEvent (or_default m ''stream error'')), EndRes]),
      hb = True, buffer = [], live = False, emitter = False\<rparr>"

text \<open>
  The route \<open>stream\<close> up to the point where the body stream is attached (lines 176-300).
  The timer is armed before the upstream call, so it may tick while \<open>fetch\<close> is awaited.
\<close>

definition route_stream :: "env \<Rightarrow> request \<Rightarrow> effect list \<Rightarrow> session" where
  "route_stream e req tr0 =
     (if \<not> valid_prompt (req_prompt req) then
        finished (tr0 @ [Status 400, Json (error_body ''Missing prompt'')])
      else
        (let tr1 = tr0 @ sse_headers (env_hasFlush e) @ [SetInterval];
             (effs, r) = streamGenerateContent e (the (req_prompt req));
             tr2 = tr1 @ effs @ (if effs = [] then [] else replicate (env_pings e) (Write Ping))
         in case r of
              Inl m \<Rightarrow> catch_stream tr2 m
            | Inr up \<Rightarrow>
                (case up_body up of
                   None \<Rightarrow> catch_stream tr2 ''No upstream body''
                 | Some UnknownShape \<Rightarrow> catch_stream tr2 ''Unknown upstream body stream type''
                 | Some sh \<Rightarrow>
                     \<lparr>trace = tr2, hb = True, buffer = [], live = True, emitter = (sh = NodeEmitter)\<rparr>)))"

text \<open>The first end or error among the events of the body stream.\<close>

fun terminal :: "stream_event list \<Rightarrow> stream_event option" where
  "terminal [] = None"
| "terminal (End # evs) = Some End"
| "terminal (Error m # evs) = Some (Error m)"
| "terminal (ev # evs) = terminal evs"

text \<open>
  The route \<open>stream/silent\<close> (lines 313-396) reads the whole stream before it answers and
  only logs the texts. A failing read throws out of the reader loop and the iteration,
  and resolves the promise of the Node stream.
\<close>

definition route_stream_silent :: "env \<Rightarrow> request \<Rightarrow> effect list" where
  "route_stream_silent e req =
     (if \<not> valid_prompt (req_prompt req) then [Status 400, EndRes]
      else (let (effs, r) = streamGenerateContent e (the (req_prompt req))
            in effs @
               (case r of
                  Inl m \<Rightarrow> [Status 500, EndRes]
                | Inr up \<Rightarrow>
                    (case up_body up of
                       None \<Rightarrow> [Status 500, EndRes]
                     | Some UnknownShape \<Rightarrow>
                         [Status 502, Json (error_body ''Unknown upstream body stream type'')]
                     | Some NodeEmitter \<Rightarrow>
                         (case terminal (env_events e) of None \<Rightarrow> [] | Some ev \<Rightarrow> [Status 204, EndRes])
                     | Some sh \<Rightarrow>
                         (case terminal (env_events e) of
                            None \<Rightarrow> []
                          | Some (Error m) \<Rightarrow> [Status 500, EndRes]
                          | Some ev \<Rightarrow> [Status 204, EndRes])))))"

definition limit_json :: "limit_body \<Rightarrow> json" where
  "limit_json b =
     JObject [(''limit'', JNum (of_nat (limit b))), (''remaining'', JNum (of_int (remaining b))),
              (''windowMs'', JNum (of_int (windowMs b))),
              (''secondsRemaining'', JNum (of_int (secondsRemaining b)))]"

text \<open>The handler of gemini.js (lines 97-399): the session it leaves and the limiter's state.\<close>

definition handler_router :: "env \<Rightarrow> request \<Rightarrow> limiter \<Rightarrow> session \<times> limiter" where
  "handler_router e req st =
     (if req_method req = ''OPTIONS'' then (finished (cors @ [Status 204, EndRes]), st)
      else if req_method req = ''GET'' \<and> req_subpath req = ''limit'' then
        (let (b, st') = limit_status (env_now e) st
         in (finished (cors @ [SetHeader ''Cache-Control'' ''no-store'', Status 200, Json (limit_json b)]), st'))
      else if req_method req \<noteq> ''POST'' then
        (finished (cors @ [SetHeader ''Allow'' ''GET, POST, OPTIONS'', Status 405,
                           Json (error_body ''Method Not Allowed'')]), st)
      else
        (let (admit, st') = geminiRateLimiter (env_now e) st
         in if \<not> admit then (finished (cors @ [Status 429, EndRes]), st')
            else if req_subpath req = [] then (finished (cors @ route_completion e req), st')
            else if req_subpath req = ''silent'' then (finished (cors @ route_silent e req), st')
            else if req_subpath req = ''stream'' then (route_stream e req cors, st')
            else if req_subpath req = ''stream/silent'' then (finished (cors @ route_stream_silent e req), st')
            else (finished (cors @ [Status 404, Json (error_body ''Unknown Gemini route'')]), st')))"

text \<open>
  A sequence of exchanges with the handler, each with its own surroundings, the
  limiter's state passed from one to the next: the sessions they leave, in order, and
  the final state.
\<close>

fun serve :: "(env \<times> request) list \<Rightarrow> limiter \<Rightarrow> session list \<times> limiter" where
  "serve [] st = ([], st)"
| "serve (x # xs) st =
     (let (s, st') = handler_router (fst x) (snd x) st;
          (ss, st'') = serve xs st'
      in (s # ss, st''))"

text \<open>The answer \<open>res.status(429).end()\<close> of line 141.\<close>

definition too_many :: session where
  "too_many = finished (cors @ [Status 429, EndRes])"

text \<open>
  The times of the admitted requests of such a sequence, in order: the POST requests
  that are not answered 429.
\<close>

definition admitted_times :: "(env \<times> request) list \<Rightarrow> limiter \<Rightarrow> int list" where
  "admitted_times xs st =
     map (\<lambda>(x, s). env_now (fst x))
       (filter (\<lambda>(x, s). req_method (snd x) = ''POST'' \<and> s \<noteq> too_many) (zip xs (fst (serve xs st))))"

section \<open>The standalone handlers (src/api/gemini/stream.js and src/api/gemini/index.js)\<close>

text \<open>
  stream.js up to the point where the body stream is attached (lines 2-143). The upstream
  status is checked before the stream headers are set and before the timer is armed.
\<close>

definition handler_stream :: "env \<Rightarrow> request \<Rightarrow> session" where
  "handler_stream e req =
     (if req_method req = ''OPTIONS'' then finished (cors @ [Status 204, EndRes])
      else if req_method req \<noteq> ''POST'' then
        finished (cors @ [SetHeader ''Allow'' ''POST'', Status 405, Json (error_body ''Method Not Allowed'')])
      else if env_apiKey e = [] then
        finished (cors @ [Status 500, Json (error_body ''Missing Gemini API key'')])
      else if \<not> valid_prompt (req_prompt req) then
        finished (cors @ [Status 400, Json (error_body ''Missing prompt'')])
      else
        (let s = the (req_prompt req)
         in if length s > INPUT_TOKEN_LIMIT * APPROX_CHARS_PER_TOKEN then
              finished (cors @ [Status 400, Json (error_body ''Input too long, 50k tokens max'')])
            else
              (case env_fetch e of
                 NetworkError m \<Rightarrow>
                   finished (cors @ [Fetch s, Status 500, Json (error_body (or_default m ''Gemini stream failed''))])
               | Response up \<Rightarrow>
                   if \<not> ok up \<or> up_body up = None then
                     finished (cors @ [Fetch s, Status (up_status up),
                                       Json (error_body (or_default (up_detail up) ''Gemini streaming error''))])
                   else
                     (let tr = cors @ [Fetch s] @ sse_headers (env_hasFlush e) @ [SetInterval]
                      in case up_body up of
                           Some UnknownShape \<Rightarrow>
                             \<lparr>trace = tr @ [Status 502, Json (error_body ''Unknown upstream body stream type'')],
                              hb = True, buffer = [], live = False, emitter = False\<rparr>
                         | _ \<Rightarrow>
                             \<lparr>trace = tr, hb = True, buffer = [], live = True,
                              emitter = (up_body up = Some NodeEmitter)\<rparr>))))"

text \<open>index.js (lines 2-45), the completion endpoint.\<close>

definition handler_completion :: "env \<Rightarrow> request \<Rightarrow> effect list" where
  "handler_completion e req =
     (if req_method req = ''OPTIONS'' then cors @ [Status 204, EndRes]
      else if req_method req \<noteq> ''POST'' then
        cors @ [SetHeader ''Allow'' ''POST'', Status 405, Json (error_body ''Method Not Allowed'')]
      else if env_apiKey e = [] then cors @ [Status 500, Json (error_body ''Missing Gemini API key'')]
      else if \<not> valid_prompt (req_prompt req) then cors @ [Status 400, Json (error_body ''Missing prompt'')]
      else
        (let s = the (req_prompt req)
         in if length s > INPUT_TOKEN_LIMIT * APPROX_CHARS_PER_TOKEN then
              cors @ [Status 400, Json (error_body ''Input too long, 50k tokens max'')]
            else
              (case env_fetch e of
                 NetworkError m \<Rightarrow>
                   cors @ [Fetch s, Status 500, Json (error_body (or_default m ''Gemini request failed''))]
               | Response up \<Rightarrow>
                   if \<not> ok up then
                     cors @ [Fetch s, Status (up_status up),
                             Json (error_body (or_default (up_detail up) ''Gemini API error''))]
                   else
                     (case up_data up of
                        Inl m \<Rightarrow> cors @ [Fetch s, Status 500, Json (error_body (or_default m ''Gemini request failed''))]
                      | Inr d \<Rightarrow> cors @ [Fetch s, Status 200, Json (JObject [(''text'', first_text d)])]))))"

section \<open>The streaming session\<close>

text \<open>
  The two handlers that stream differ in what they do when the body stream fails.
\<close>

datatype handler_kind = Standalone | Router

text \<open>A chunk arrives: \<open>handleText\<close> on the decoded text.\<close>

definition on_data :: "(string \<Rightarrow> json option) \<Rightarrow> session \<Rightarrow> string \<Rightarrow> session" where
  "on_data parse s text =
     (let (frames, lines, ws, b) = handleText parse (buffer s) text
      in s\<lparr>trace := trace s @ map Write ws, buffer := b\<rparr>)"

text \<open>\<open>flushDone\<close> (stream.js lines 93-98, gemini.js lines 200-205).\<close>

definition flushDone :: "session \<Rightarrow> session" where
  "flushDone s = s\<lparr>trace := trace s @ [ClearInterval, Write DoneEvent, Write DoneData, EndRes], hb := False\<rparr>"

text \<open>The stream ends: \<open>if (buffer.trim()) handleText('\n'); flushDone()\<close>.\<close>

definition on_end :: "(string \<Rightarrow> json option) \<Rightarrow> session \<Rightarrow> session" where
  "on_end parse s =
     (flushDone (if trim (buffer s) \<noteq> [] then on_data parse s ''\<newline>'' else s))\<lparr>live := emitter s\<rparr>"

text \<open>
  The stream fails (stream.js lines 111-114, 122 and 132-135; gemini.js lines 263-267,
  278-282 and 292-296).
\<close>

definition on_error :: "handler_kind \<Rightarrow> session \<Rightarrow> string \<Rightarrow> session" where
  "on_error k s m =
     s\<lparr>trace := trace s @ [ClearInterval] @
                 (case k of Router \<Rightarrow> [Write (ErrorEvent (or_default m ''stream error''))]
                          | Standalone \<Rightarrow> []) @ [EndRes],
       hb := False, live := emitter s\<rparr>"

text \<open>
  One event. The timer writes a ping as long as it is armed. An event of the body
  stream is handled as long as it reaches the handler: on a Node stream every event
  does, also after an end or a failure (stream.js lines 117-122, gemini.js lines
  270-282); the reader loop and the iteration have stopped by then.
\<close>

fun step :: "handler_kind \<Rightarrow> (string \<Rightarrow> json option) \<Rightarrow> session \<Rightarrow> stream_event \<Rightarrow> session" where
  "step k parse s Tick = (if hb s then s\<lparr>trace := trace s @ [Write Ping]\<rparr> else s)"
| "step k parse s (Data text) = (if live s then on_data parse s text else s)"
| "step k parse s End = (if live s then on_end parse s else s)"
| "step k parse s (Error m) = (if live s then on_error k s m else s)"

definition run :: "handler_kind \<Rightarrow> (string \<Rightarrow> json option) \<Rightarrow> session \<Rightarrow> stream_event list \<Rightarrow> session" where
  "run k parse s evs = foldl (step k parse) s evs"

text \<open>A whole exchange with each of the two streaming handlers.\<close>

definition exchange_stream :: "(string \<Rightarrow> json option) \<Rightarrow> env \<Rightarrow> request \<Rightarrow> session" where
  "exchange_stream parse e req = run Standalone parse (handler_stream e req) (env_events e)"

definition exchange_router :: "(string \<Rightarrow> json option) \<Rightarrow> env \<Rightarrow> request \<Rightarrow> limiter \<Rightarrow> session" where
  "exchange_router parse e req st = run Router parse (fst (handler_router e req st)) (env_events e)"


section \<open>Auxiliary definitions and sample inputs\<close>

text \<open>The limiter when the process starts.\<close>

definition init :: limiter where "init = \<lparr>requestTimes = [], limitReached = False\<rparr>"

text \<open>Inputs at which the theorems below are evaluated.\<close>

definition sample_env :: env where
  "sample_env = \<lparr>env_apiKey = ''key'', env_now = 10000, env_hasFlush = True,
     env_fetch = NetworkError ''down'', env_pings = 0, env_events = []\<rparr>"

definition ten_calls :: "int list" where
  "ten_calls = [0, 1000, 2000, 3000, 4000, 5000, 6000, 7000, 8000, 9000]"

text \<open>A POST at a given time, ten of them one second apart, and a run in which the clock steps back.\<close>

definition post_at :: "int \<Rightarrow> env \<times> request" where
  "post_at t = (\<lparr>env_apiKey = ''key'', env_now = t, env_hasFlush = True,
     env_fetch = NetworkError ''down'', env_pings = 0, env_events = []\<rparr>,
     \<lparr>req_method = ''POST'', req_subpath = ''stream'', req_prompt = Some ''hello''\<rparr>)"

definition ten_posts :: "(env \<times> request) list" where
  "ten_posts = map post_at ten_calls"

definition clock_steps_back :: "(env \<times> request) list" where
  "clock_steps_back = map post_at [0, 1, 2, 3, 4, 5, 6, 7, 8, 9, 60009, 10]"

definition full_limiter :: limiter where
  "full_limiter = \<lparr>requestTimes = ten_calls, limitReached = False\<rparr>"


definition post_req :: request where
  "post_req = \<lparr>req_method = ''POST'', req_subpath = ''stream'', req_prompt = Some ''hello''\<rparr>"

text \<open>A JSON text with one text part, the value it parses to, and a parser that knows two such texts and rejects every other input.\<close>

definition dq :: string where
  "dq = [CHR 0x22]"

definition chunk_json :: "string \<Rightarrow> string" where
  "chunk_json t = ''{'' @ dq @ ''candidates'' @ dq @ '':[{'' @ dq @ ''content'' @ dq @ '':{'' @ dq @ ''parts'' @ dq @
     '':[{'' @ dq @ ''text'' @ dq @ '':'' @ dq @ t @ dq @ ''}]}}]}''"

definition chunk_value :: "string \<Rightarrow> json" where
  "chunk_value t = JObject [(''candidates'', JArray [JObject [(''content'',
     JObject [(''parts'', JArray [JObject [(''text'', JString t)]])])]])]"

definition sample_parse :: "string \<Rightarrow> json option" where
  "sample_parse s =
     (if s = chunk_json ''Hi'' then Some (chunk_value ''Hi'')
      else if s = chunk_json '' there'' then Some (chunk_value '' there'')
      else None)"

text \<open>An event-stream line that carries such a text.\<close>

definition data_line :: "string \<Rightarrow> string" where
  "data_line t = ''data: '' @ chunk_json t"





text \<open>A line without the carriage return that the split consumes with the newline.\<close>

definition strip_cr :: "string \<Rightarrow> string" where
  "strip_cr l = (if l \<noteq> [] \<and> last l = CR then butlast l else l)"

text \<open>The writes for all newline-terminated lines of a text.\<close>

definition line_writes :: "(string \<Rightarrow> json option) \<Rightarrow> string \<Rightarrow> sse list" where
  "line_writes parse s = concat (map (processLine parse) (fst (fallback_loop s)))"


text \<open>Upstream responses: an overloaded provider, a stream that has started, and a completed call with a given body.\<close>

definition unavailable :: upstream where
  "unavailable = \<lparr>up_status = 503, up_statusText = ''Service Unavailable'', up_detail = ''overloaded'',
     up_body = Some WebReader, up_data = Inl ''Unexpected token''\<rparr>"

definition streaming :: upstream where
  "streaming = \<lparr>up_status = 200, up_statusText = ''OK'', up_detail = [],
     up_body = Some WebReader, up_data = Inl ''Unexpected token''\<rparr>"

definition completed :: "json \<Rightarrow> upstream" where
  "completed d = \<lparr>up_status = 200, up_statusText = ''OK'', up_detail = [],
     up_body = Some WebReader, up_data = Inr d\<rparr>"

text \<open>A body whose first part has a number as its text.\<close>

definition numeric_text :: json where
  "numeric_text = JObject [(''candidates'', JArray [JObject [(''content'',
     JObject [(''parts'', JArray [JObject [(''text'', JNum 42)]])])]])]"

text \<open>A prompt one character longer than the guard allows.\<close>

definition long_prompt :: string where
  "long_prompt = replicate 200001 (CHR ''a'')"

text \<open>A body stream that delivers one frame and then fails, with heartbeat ticks around the failure.\<close>

definition stream_error_events :: "stream_event list" where
  "stream_error_events = [Data (data_line ''Hi'' @ ''\<newline>\<newline>''), Tick, Error ''socket hang up'', Tick]"

text \<open>A session whose timer has just been armed and whose stream is attached.\<close>

definition fresh_session :: session where
  "fresh_session = \<lparr>trace = [SetInterval], hb = True, buffer = [], live = True, emitter = False\<rparr>"

section \<open>The rate limiter: proofs\<close>



lemma limiter_verdict:
  "fst (geminiRateLimiter now st) = (length (prune now (requestTimes st)) < MAX_REQ)"
  by (auto simp: geminiRateLimiter_def Let_def)

lemma limiter_times:
  "requestTimes (snd (geminiRateLimiter now st)) =
     prune now (requestTimes st) @ (if length (prune now (requestTimes st)) < MAX_REQ then [now] else [])"
  by (auto simp: geminiRateLimiter_def Let_def)

lemma prune_prune: "m \<le> n \<Longrightarrow> prune n (prune m ts) = prune n ts"
  by (induction ts) (auto simp: prune_def)

lemma length_filter_mono:
  "(\<And>x. x \<in> set xs \<Longrightarrow> P x \<Longrightarrow> Q x) \<Longrightarrow> length (filter P xs) \<le> length (filter Q xs)"
  by (induction xs) auto

lemma resumes:
  assumes "length ts \<le> MAX_REQ" "ts \<noteq> []" "WINDOW_MS \<le> now - hd ts"
  shows "length (prune now ts) < MAX_REQ"
proof -
  obtain t ts' where ts: "ts = t # ts'" using assms(2) by (cases ts) auto
  with assms(3) have "prune now ts = prune now ts'" by (simp add: prune_def)
  moreover have "length (prune now ts') \<le> length ts'" by (simp add: prune_def)
  ultimately show ?thesis using assms(1) ts by simp
qed




lemma prune_append: "prune n (a @ b) = prune n a @ prune n b"
  by (simp add: prune_def)

lemma generate_effects: "fst (generateContent e p) = [] \<or> fst (generateContent e p) = [Fetch p]"
  by (simp add: generateContent_def split: fetch_result.splits sum.splits)

lemma stream_generate_effects:
  "fst (streamGenerateContent e p) = [] \<or> fst (streamGenerateContent e p) = [Fetch p]"
  by (simp add: streamGenerateContent_def split: fetch_result.splits)

lemma completion_no_429: "Status 429 \<notin> set (route_completion e req)"
  using generate_effects [of e "the (req_prompt req)"]
  by (cases "snd (generateContent e (the (req_prompt req)))")
     (auto simp: route_completion_def case_prod_beta catch_status_def)

lemma silent_no_429: "Status 429 \<notin> set (route_silent e req)"
  using generate_effects [of e "the (req_prompt req)"]
  by (cases "snd (generateContent e (the (req_prompt req)))")
     (auto simp: route_silent_def case_prod_beta catch_status_def)

lemma stream_silent_no_429: "Status 429 \<notin> set (route_stream_silent e req)"
  using stream_generate_effects [of e "the (req_prompt req)"]
  by (auto simp: route_stream_silent_def case_prod_beta
      split: sum.splits option.splits shape.splits stream_event.splits)

lemma catch_stream_no_429: "Status 429 \<notin> set tr \<Longrightarrow> Status 429 \<notin> set (trace (catch_stream tr m))"
  by (simp add: catch_stream_def)

lemma stream_no_429:
  assumes "Status 429 \<notin> set tr0"
  shows "Status 429 \<notin> set (trace (route_stream e req tr0))"
proof (cases "valid_prompt (req_prompt req)")
  case False
  with assms show ?thesis by (simp add: route_stream_def finished_def)
next
  case True
  let ?g = "streamGenerateContent e (the (req_prompt req))"
  let ?tr2 = "tr0 @ sse_headers (env_hasFlush e) @ [SetInterval] @ fst ?g @
                (if fst ?g = [] then [] else replicate (env_pings e) (Write Ping))"
  have t: "Status 429 \<notin> set ?tr2"
    using assms stream_generate_effects [of e "the (req_prompt req)"]
    by (auto simp: sse_headers_def)
  show ?thesis
  proof (cases "snd ?g")
    case (Inl m)
    with True show ?thesis
      using catch_stream_no_429 [OF t] by (simp add: route_stream_def case_prod_beta)
  next
    case (Inr up)
    show ?thesis
    proof (cases "up_body up")
      case None
      with True Inr show ?thesis
        using catch_stream_no_429 [OF t] by (simp add: route_stream_def case_prod_beta)
    next
      case (Some sh)
      with True Inr show ?thesis
        using catch_stream_no_429 [OF t] t
        by (cases sh) (simp_all add: route_stream_def case_prod_beta)
    qed
  qed
qed

lemma cors_no_status: "Status n \<notin> set cors"
  by (simp add: cors_def)

lemma post_state:
  "req_method req = ''POST'' \<Longrightarrow>
     snd (handler_router e req st) = snd (geminiRateLimiter (env_now e) st)"
  by (simp add: handler_router_def case_prod_beta)

lemma post_verdict:
  assumes "req_method req = ''POST''"
  shows "(fst (handler_router e req st) = too_many) = (\<not> fst (geminiRateLimiter (env_now e) st))"
proof (cases "fst (geminiRateLimiter (env_now e) st)")
  case False
  with assms show ?thesis by (simp add: handler_router_def case_prod_beta too_many_def)
next
  case True
  have "Status 429 \<notin> set (trace (fst (handler_router e req st)))"
    using assms True completion_no_429 [of e req] silent_no_429 [of e req]
      stream_silent_no_429 [of e req] stream_no_429 [OF cors_no_status, of e req]
    by (simp add: handler_router_def case_prod_beta finished_def cors_no_status)
  moreover have "Status 429 \<in> set (trace too_many)" by (simp add: too_many_def finished_def)
  ultimately show ?thesis using True by auto
qed

lemma handler_times:
  "requestTimes (snd (handler_router e req st)) =
     (if req_method req = ''POST'' then
        prune (env_now e) (requestTimes st) @
        (if length (prune (env_now e) (requestTimes st)) < MAX_REQ then [env_now e] else [])
      else if req_method req = ''GET'' \<and> req_subpath req = ''limit'' then prune (env_now e) (requestTimes st)
      else requestTimes st)"
  by (simp add: post_state limiter_times)
     (simp add: handler_router_def limit_status_def Let_def)

lemma serve_Cons:
  "serve (x # xs) st =
     (fst (handler_router (fst x) (snd x) st) # fst (serve xs (snd (handler_router (fst x) (snd x) st))),
      snd (serve xs (snd (handler_router (fst x) (snd x) st))))"
  by (simp add: case_prod_beta)

lemma serve_snoc:
  "serve (xs @ [x]) st =
     (fst (serve xs st) @ [fst (handler_router (fst x) (snd x) (snd (serve xs st)))],
      snd (handler_router (fst x) (snd x) (snd (serve xs st))))"
  by (induction xs arbitrary: st) (simp_all add: serve_Cons del: serve.simps(2))

lemma length_serve: "length (fst (serve xs st)) = length xs"
  by (induction xs arbitrary: st) (simp_all add: serve_Cons del: serve.simps(2))

lemma admitted_times_Nil: "admitted_times [] st = []"
  by (simp add: admitted_times_def)

lemma admitted_times_Cons:
  "admitted_times (x # xs) st =
     (if req_method (snd x) = ''POST'' \<and> fst (handler_router (fst x) (snd x) st) \<noteq> too_many
      then [env_now (fst x)] else []) @
     admitted_times xs (snd (handler_router (fst x) (snd x) st))"
  by (simp add: admitted_times_def serve_Cons del: serve.simps(2))

lemma admitted_times_snoc:
  "admitted_times (xs @ [x]) st =
     admitted_times xs st @
     (if req_method (snd x) = ''POST'' \<and> fst (handler_router (fst x) (snd x) (snd (serve xs st))) \<noteq> too_many
      then [env_now (fst x)] else [])"
  by (simp add: admitted_times_def serve_snoc length_serve)

lemma admitted_post:
  "req_method (snd x) = ''POST'' \<Longrightarrow>
     admitted_times (x # xs) st =
       (if fst (geminiRateLimiter (env_now (fst x)) st) then [env_now (fst x)] else []) @
       admitted_times xs (snd (geminiRateLimiter (env_now (fst x)) st))"
  by (simp add: admitted_times_Cons post_verdict post_state)

lemma serve_recent:
  "sorted (map (\<lambda>x. env_now (fst x)) xs) \<Longrightarrow> \<forall>x\<in>set xs. env_now (fst x) \<le> n \<Longrightarrow>
     prune n (requestTimes (snd (serve xs init))) = prune n (admitted_times xs init)"
proof (induction xs arbitrary: n rule: rev_induct)
  case Nil
  then show ?case by (simp add: init_def admitted_times_Nil)
next
  case (snoc x xs)
  let ?now = "env_now (fst x)"
  let ?st = "snd (serve xs init)"
  from snoc.prems have s: "sorted (map (\<lambda>x. env_now (fst x)) xs)"
    and before: "\<forall>y\<in>set xs. env_now (fst y) \<le> ?now" and le: "?now \<le> n"
    by (auto simp: sorted_append)
  from before le have all: "\<forall>y\<in>set xs. env_now (fst y) \<le> n" by auto
  have ih: "prune n (requestTimes ?st) = prune n (admitted_times xs init)"
    by (rule snoc.IH [OF s all])
  have ihn: "prune ?now (requestTimes ?st) = prune ?now (admitted_times xs init)"
    by (rule snoc.IH [OF s before])
  have pp: "prune n (prune ?now (requestTimes ?st)) = prune n (requestTimes ?st)"
    using le by (rule prune_prune)
  show ?case
  proof (cases "req_method (snd x) = ''POST''")
    case True
    then show ?thesis
      by (simp add: serve_snoc admitted_times_snoc handler_times post_verdict limiter_verdict
          prune_append pp ih)
  next
    case False
    then show ?thesis
      by (simp add: serve_snoc admitted_times_snoc handler_times pp ih)
  qed
qed

lemma serve_window:
  "sorted (map (\<lambda>x. env_now (fst x)) xs) \<Longrightarrow>
     length (filter (\<lambda>t. w \<le> t \<and> t < w + WINDOW_MS) (admitted_times xs init)) \<le> MAX_REQ"
proof (induction xs rule: rev_induct)
  case Nil then show ?case by (simp add: admitted_times_Nil)
next
  case (snoc x xs)
  let ?A = "admitted_times xs init"
  let ?now = "env_now (fst x)"
  let ?st = "snd (serve xs init)"
  let ?in = "\<lambda>t. w \<le> t \<and> t < w + WINDOW_MS"
  let ?new = "req_method (snd x) = ''POST'' \<and> fst (handler_router (fst x) (snd x) ?st) \<noteq> too_many"
  from snoc.prems have s: "sorted (map (\<lambda>x. env_now (fst x)) xs)"
    and before: "\<forall>y\<in>set xs. env_now (fst y) \<le> ?now"
    by (auto simp: sorted_append)
  have ih: "length (filter ?in ?A) \<le> MAX_REQ" using snoc.IH s by simp
  show ?case
  proof (cases "?new \<and> ?in ?now")
    case False
    then show ?thesis using ih by (auto simp: admitted_times_snoc)
  next
    case True
    then have "req_method (snd x) = ''POST''"
      and "fst (handler_router (fst x) (snd x) ?st) \<noteq> too_many" by simp_all
    then have "fst (geminiRateLimiter ?now ?st)"
      using post_verdict [of "snd x" "fst x" ?st] by simp
    then have "length (prune ?now ?A) < MAX_REQ"
      using serve_recent [OF s before] by (simp add: limiter_verdict)
    moreover have "length (filter ?in ?A) \<le> length (prune ?now ?A)"
      unfolding prune_def using True by (intro length_filter_mono) auto
    ultimately show ?thesis using True by (simp add: admitted_times_snoc)
  qed
qed

lemma serve_length:
  "length (requestTimes st) \<le> MAX_REQ \<Longrightarrow> length (requestTimes (snd (serve xs st))) \<le> MAX_REQ"
proof (induction xs arbitrary: st)
  case Nil then show ?case by simp
next
  case (Cons x xs)
  have "length (prune (env_now (fst x)) (requestTimes st)) \<le> length (requestTimes st)"
    by (simp add: prune_def)
  with Cons.prems have "length (requestTimes (snd (handler_router (fst x) (snd x) st))) \<le> MAX_REQ"
    by (simp add: handler_times)
  from Cons.IH [OF this] show ?case by (simp add: serve_Cons del: serve.simps(2))
qed



text \<open>
  Claim C4 as stated fails when the clock steps back. Ten requests are admitted at the
  times 0 to 9; the next one, at 60009, prunes them all and is admitted; then the clock
  reads 10, nothing is pruned, and a twelfth request is admitted: eleven admitted
  requests lie in the window that starts at 0.
\<close>

theorem rate_limiter_counterexample:
  "admitted_times clock_steps_back init = [0, 1, 2, 3, 4, 5, 6, 7, 8, 9, 60009, 10]
   \<and> length (filter (\<lambda>t. 0 \<le> t \<and> t < 0 + 60000) (admitted_times clock_steps_back init)) = 11"
proof -
  have p: "req_method (snd (post_at t)) = ''POST''" "env_now (fst (post_at t)) = t" for t
    by (simp_all add: post_at_def)
  have "admitted_times clock_steps_back init = [0, 1, 2, 3, 4, 5, 6, 7, 8, 9, 60009, 10]"
    by (simp add: clock_steps_back_def admitted_post p admitted_times_Nil init_def
        geminiRateLimiter_def prune_def WINDOW_MS_def MAX_REQ_def Let_def)
  then show ?thesis by simp
qed

text \<open>
  Claim C4, amended. \<open>geminiRateLimiter\<close> prunes; with 10 or more timestamps left it
  answers false and stores the pruned list with nothing appended, otherwise it appends
  \<open>now\<close> and answers true. A POST through the handler makes exactly this call: it leaves
  the limiter in the state the call leaves, and it is answered 429 exactly when the call
  answers false. For every sequence of requests through the handler, of any method and
  route, from the start of the process, whose times do not decrease: no window of 60
  seconds holds more than 10 admitted requests, and a POST that finds 10 admitted
  requests within the last 60 seconds is answered 429. After any sequence of requests,
  a POST made 60 seconds or more after the first retained timestamp is admitted.
\<close>

theorem rate_limiter_window:
  "geminiRateLimiter now st =
     (if 10 \<le> length (prune now (requestTimes st))
      then (False, \<lparr>requestTimes = prune now (requestTimes st), limitReached = True\<rparr>)
      else (True, \<lparr>requestTimes = prune now (requestTimes st) @ [now], limitReached = False\<rparr>))
   \<and> (req_method req = ''POST'' \<longrightarrow>
        snd (handler_router e req st) = snd (geminiRateLimiter (env_now e) st)
        \<and> (fst (handler_router e req st) = finished (cors @ [Status 429, EndRes]))
            = (\<not> fst (geminiRateLimiter (env_now e) st)))
   \<and> (sorted (map (\<lambda>x. env_now (fst x)) xs) \<longrightarrow>
        (\<forall>w. length (filter (\<lambda>t. w \<le> t \<and> t < w + 60000) (admitted_times xs init)) \<le> 10))
   \<and> (sorted (map (\<lambda>x. env_now (fst x)) (xs @ [(e, req)])) \<and> req_method req = ''POST''
        \<and> 10 \<le> length (filter (\<lambda>t. env_now e - t < 60000) (admitted_times xs init)) \<longrightarrow>
        fst (handler_router e req (snd (serve xs init))) = finished (cors @ [Status 429, EndRes]))
   \<and> (req_method req = ''POST'' \<and> requestTimes (snd (serve xs init)) \<noteq> []
        \<and> 60000 \<le> env_now e - hd (requestTimes (snd (serve xs init))) \<longrightarrow>
        fst (handler_router e req (snd (serve xs init))) \<noteq> finished (cors @ [Status 429, EndRes])
        \<and> requestTimes (snd (handler_router e req (snd (serve xs init)))) =
            prune (env_now e) (requestTimes (snd (serve xs init))) @ [env_now e])"
proof (intro conjI impI allI)
  show "geminiRateLimiter now st =
     (if 10 \<le> length (prune now (requestTimes st))
      then (False, \<lparr>requestTimes = prune now (requestTimes st), limitReached = True\<rparr>)
      else (True, \<lparr>requestTimes = prune now (requestTimes st) @ [now], limitReached = False\<rparr>))"
    by (simp add: geminiRateLimiter_def Let_def MAX_REQ_def)
next
  assume "req_method req = ''POST''"
  then show "snd (handler_router e req st) = snd (geminiRateLimiter (env_now e) st)"
    and "(fst (handler_router e req st) = finished (cors @ [Status 429, EndRes]))
            = (\<not> fst (geminiRateLimiter (env_now e) st))"
    using post_verdict [of req e st] by (simp_all add: post_state too_many_def)
next
  fix w assume "sorted (map (\<lambda>x. env_now (fst x)) xs)"
  from serve_window [OF this, of w]
  show "length (filter (\<lambda>t. w \<le> t \<and> t < w + 60000) (admitted_times xs init)) \<le> 10"
    by (simp add: WINDOW_MS_def MAX_REQ_def)
next
  assume a: "sorted (map (\<lambda>x. env_now (fst x)) (xs @ [(e, req)])) \<and> req_method req = ''POST''
        \<and> 10 \<le> length (filter (\<lambda>t. env_now e - t < 60000) (admitted_times xs init))"
  then have s: "sorted (map (\<lambda>x. env_now (fst x)) xs)"
    and before: "\<forall>y\<in>set xs. env_now (fst y) \<le> env_now e"
    by (auto simp: sorted_append)
  from serve_recent [OF s before] a
  have "\<not> fst (geminiRateLimiter (env_now e) (snd (serve xs init)))"
    by (simp add: limiter_verdict prune_def WINDOW_MS_def MAX_REQ_def)
  with a show "fst (handler_router e req (snd (serve xs init))) = finished (cors @ [Status 429, EndRes])"
    using post_verdict [of req e "snd (serve xs init)"] by (simp add: too_many_def)
next
  let ?st = "snd (serve xs init)"
  assume a: "req_method req = ''POST'' \<and> requestTimes ?st \<noteq> []
        \<and> 60000 \<le> env_now e - hd (requestTimes ?st)"
  have "length (requestTimes ?st) \<le> MAX_REQ"
    by (rule serve_length) (simp add: init_def)
  with a have l: "length (prune (env_now e) (requestTimes ?st)) < MAX_REQ"
    by (intro resumes) (simp_all add: WINDOW_MS_def)
  then have "fst (geminiRateLimiter (env_now e) ?st)" by (simp add: limiter_verdict)
  with a show "fst (handler_router e req ?st) \<noteq> finished (cors @ [Status 429, EndRes])"
    using post_verdict [of req e ?st] by (simp add: too_many_def)
  from a l show "requestTimes (snd (handler_router e req ?st)) =
            prune (env_now e) (requestTimes ?st) @ [env_now e]"
    by (simp add: handler_times)
qed

lemma ten_posts_times: "admitted_times ten_posts init = ten_calls"
proof -
  have p: "req_method (snd (post_at t)) = ''POST''" "env_now (fst (post_at t)) = t" for t
    by (simp_all add: post_at_def)
  show ?thesis
    by (simp add: ten_posts_def ten_calls_def admitted_post p admitted_times_Nil init_def
        geminiRateLimiter_def prune_def WINDOW_MS_def MAX_REQ_def Let_def)
qed

lemma ten_posts_state: "snd (serve ten_posts init) = full_limiter"
proof -
  have p: "req_method (snd (post_at t)) = ''POST''" "env_now (fst (post_at t)) = t" for t
    by (simp_all add: post_at_def)
  show ?thesis
    by (simp add: ten_posts_def ten_calls_def serve_Cons post_state p init_def full_limiter_def
        geminiRateLimiter_def prune_def WINDOW_MS_def MAX_REQ_def Let_def del: serve.simps(2))
qed

theorem rate_limiter_window_witness:
  "req_method (snd (post_at 10000)) = ''POST''
   \<and> sorted (map (\<lambda>x. env_now (fst x)) (ten_posts @ [(fst (post_at 10000), snd (post_at 10000))]))
   \<and> admitted_times ten_posts init = ten_calls
   \<and> 10 \<le> length (filter (\<lambda>t. env_now (fst (post_at 10000)) - t < 60000) (admitted_times ten_posts init))
   \<and> fst (handler_router (fst (post_at 10000)) (snd (post_at 10000)) (snd (serve ten_posts init))) =
       finished (cors @ [Status 429, EndRes])
   \<and> snd (handler_router (fst (post_at 10000)) (snd (post_at 10000)) (snd (serve ten_posts init))) =
       \<lparr>requestTimes = ten_calls, limitReached = True\<rparr>
   \<and> requestTimes (snd (serve ten_posts init)) \<noteq> []
   \<and> 60000 \<le> env_now (fst (post_at 60000)) - hd (requestTimes (snd (serve ten_posts init)))
   \<and> fst (handler_router (fst (post_at 60000)) (snd (post_at 60000)) (snd (serve ten_posts init))) \<noteq>
       finished (cors @ [Status 429, EndRes])
   \<and> requestTimes (snd (handler_router (fst (post_at 60000)) (snd (post_at 60000)) (snd (serve ten_posts init)))) =
       [1000, 2000, 3000, 4000, 5000, 6000, 7000, 8000, 9000, 60000]
   \<and> length (filter (\<lambda>t. 0 \<le> t \<and> t < 0 + 60000) (admitted_times ten_posts init)) \<le> 10"
proof -
  have p: "req_method (snd (post_at t)) = ''POST''" "env_now (fst (post_at t)) = t" for t
    by (simp_all add: post_at_def)
  have s: "sorted (map (\<lambda>x. env_now (fst x)) (ten_posts @ [(fst (post_at 10000), snd (post_at 10000))]))"
    "sorted (map (\<lambda>x. env_now (fst x)) ten_posts)"
    by (simp_all add: ten_posts_def ten_calls_def p)
  have c: "10 \<le> length (filter (\<lambda>t. env_now (fst (post_at 10000)) - t < 60000) (admitted_times ten_posts init))"
    by (simp add: ten_posts_times p) (simp add: ten_calls_def)
  have r: "requestTimes (snd (serve ten_posts init)) \<noteq> []
           \<and> 60000 \<le> env_now (fst (post_at 60000)) - hd (requestTimes (snd (serve ten_posts init)))"
    by (simp add: ten_posts_state full_limiter_def p) (simp add: ten_calls_def)
  note t1 = rate_limiter_window [of 10000 "snd (serve ten_posts init)" "snd (post_at 10000)" "fst (post_at 10000)" ten_posts]
  note t2 = rate_limiter_window [of 60000 "snd (serve ten_posts init)" "snd (post_at 60000)" "fst (post_at 60000)" ten_posts]
  from t1 s(1) p c
  have 1: "fst (handler_router (fst (post_at 10000)) (snd (post_at 10000)) (snd (serve ten_posts init))) =
       finished (cors @ [Status 429, EndRes])" by blast
  from t1 p
  have "snd (handler_router (fst (post_at 10000)) (snd (post_at 10000)) (snd (serve ten_posts init))) =
       snd (geminiRateLimiter (env_now (fst (post_at 10000))) (snd (serve ten_posts init)))" by blast
  then have 2: "snd (handler_router (fst (post_at 10000)) (snd (post_at 10000)) (snd (serve ten_posts init))) =
       \<lparr>requestTimes = ten_calls, limitReached = True\<rparr>"
    by (simp add: ten_posts_state p full_limiter_def geminiRateLimiter_def prune_def WINDOW_MS_def
        MAX_REQ_def Let_def ten_calls_def)
  from t2 p r
  have 3: "fst (handler_router (fst (post_at 60000)) (snd (post_at 60000)) (snd (serve ten_posts init))) \<noteq>
       finished (cors @ [Status 429, EndRes])"
    and "requestTimes (snd (handler_router (fst (post_at 60000)) (snd (post_at 60000)) (snd (serve ten_posts init)))) =
       prune (env_now (fst (post_at 60000))) (requestTimes (snd (serve ten_posts init))) @ [env_now (fst (post_at 60000))]"
    by blast+
  then have 4: "requestTimes (snd (handler_router (fst (post_at 60000)) (snd (post_at 60000)) (snd (serve ten_posts init)))) =
       [1000, 2000, 3000, 4000, 5000, 6000, 7000, 8000, 9000, 60000]"
    by (simp add: ten_posts_state p full_limiter_def prune_def WINDOW_MS_def ten_calls_def)
  from t1 s(2)
  have 5: "length (filter (\<lambda>t. 0 \<le> t \<and> t < 0 + 60000) (admitted_times ten_posts init)) \<le> 10" by blast
  from p s c r 1 2 3 4 5 show ?thesis by (simp add: ten_posts_times)
qed

section \<open>The frame reassembler and the payload extractor: proofs\<close>

lemma indexOf_Some:
  "indexOf s pat = Some i \<Longrightarrow> s = take i s @ pat @ drop (i + length pat) s"
proof (induction s arbitrary: i)
  case Nil then show ?case by (auto split: if_splits)
next
  case (Cons c cs)
  show ?case
  proof (cases "prefix pat (c # cs)")
    case True
    with Cons.prems have "i = 0" by simp
    with True show ?thesis by (auto simp: prefix_def)
  next
    case False
    with Cons.prems obtain j where j: "indexOf cs pat = Some j" "i = Suc j" by auto
    from Cons.IH [OF j(1)] j(2) show ?thesis by simp
  qed
qed

lemma indexOf_LF_None: "indexOf s ''\<newline>'' = None \<longleftrightarrow> CHR 0x0A \<notin> set s"
  by (induction s) auto

lemma indexOf_LF_Some: "indexOf s ''\<newline>'' = Some i \<Longrightarrow> CHR 0x0A \<notin> set (take i s)"
proof (induction s arbitrary: i)
  case Nil then show ?case by simp
next
  case (Cons c cs)
  then show ?case by (cases "c = CHR 0x0A") auto
qed

lemma indexOf_LF_cut:
  "CHR 0x0A \<notin> set l \<Longrightarrow> indexOf (l @ CHR 0x0A # r) ''\<newline>'' = Some (length l)"
  by (induction l) auto

lemma fallback_no_LF: "CHR 0x0A \<notin> set r \<Longrightarrow> fallback_loop r = ([], r)"
  by (subst fallback_loop.simps) (simp add: indexOf_LF_None [THEN iffD2])

lemma fallback_cut:
  "CHR 0x0A \<notin> set l \<Longrightarrow>
     fallback_loop (l @ CHR 0x0A # r) = (l # fst (fallback_loop r), snd (fallback_loop r))"
  by (subst fallback_loop.simps) (simp add: indexOf_LF_cut split: prod.splits)

lemma fallback_cases:
  obtains (none) "CHR 0x0A \<notin> set s" | (cut) l r where "s = l @ CHR 0x0A # r" "CHR 0x0A \<notin> set l" "length r < length s"
proof (cases "indexOf s ''\<newline>''")
  case None then show ?thesis using none by (simp add: indexOf_LF_None)
next
  case (Some i)
  from indexOf_Some [OF Some] have "s = take i s @ CHR 0x0A # drop (i + 1) s" by simp
  moreover have "CHR 0x0A \<notin> set (take i s)" by (rule indexOf_LF_Some [OF Some])
  moreover have "length (drop (i + 1) s) < length s"
    using calculation(1) by (cases s) auto
  ultimately show ?thesis using cut by blast
qed

lemma fallback_rest_no_LF: "CHR 0x0A \<notin> set (snd (fallback_loop s))"
proof (induction s rule: length_induct)
  case (1 s)
  show ?case
  proof (cases s rule: fallback_cases)
    case none then show ?thesis by (simp add: fallback_no_LF)
  next
    case (cut l r)
    with 1 show ?thesis by (simp add: fallback_cut)
  qed
qed

lemma fallback_append:
  "fallback_loop (x @ y) =
     (fst (fallback_loop x) @ fst (fallback_loop (snd (fallback_loop x) @ y)),
      snd (fallback_loop (snd (fallback_loop x) @ y)))"
proof (induction x rule: length_induct)
  case (1 x)
  show ?case
  proof (cases x rule: fallback_cases)
    case none then show ?thesis by (simp add: fallback_no_LF)
  next
    case (cut l r)
    with 1 have "fallback_loop (r @ y) =
       (fst (fallback_loop r) @ fst (fallback_loop (snd (fallback_loop r) @ y)),
        snd (fallback_loop (snd (fallback_loop r) @ y)))" by blast
    then show ?thesis using cut by (simp add: fallback_cut)
  qed
qed

lemma split_lines_no_LF: "CHR 0x0A \<notin> set l \<Longrightarrow> split_lines l = [l]"
  by (induction l) (auto simp: LF_def CR_def split: list.splits)

lemma split_lines_cut:
  "CHR 0x0A \<notin> set l \<Longrightarrow> split_lines (l @ CHR 0x0A # r) = strip_cr l # split_lines r"
proof (induction l)
  case Nil then show ?case by (simp add: strip_cr_def LF_def CR_def)
next
  case (Cons c l)
  then show ?case
    by (cases l) (auto simp: strip_cr_def LF_def CR_def)
qed

lemma trim_snoc_space:
  assumes "isSpace c"
  shows "trim (xs @ [c]) = trim xs"
proof (cases "\<forall>x\<in>set xs. isSpace x")
  case True
  then have a: "dropWhile isSpace xs = []" by (simp add: dropWhile_eq_Nil_conv)
  from True assms have b: "dropWhile isSpace (xs @ [c]) = []"
    by (simp add: dropWhile_append2)
  show ?thesis by (simp only: trim_def a b)
next
  case False
  then have "dropWhile isSpace (xs @ [c]) = dropWhile isSpace xs @ [c]"
    by (auto simp: dropWhile_append)
  with assms show ?thesis by (simp add: trim_def)
qed

lemma trim_strip_cr: "trim (strip_cr l) = trim l"
proof (cases "l \<noteq> [] \<and> last l = CR")
  case True
  then have "l = butlast l @ [CR]" by (metis append_butlast_last_id)
  moreover have "isSpace CR" by (simp add: isSpace_def CR_def)
  ultimately have "trim l = trim (butlast l)" by (metis trim_snoc_space)
  with True show ?thesis by (simp add: strip_cr_def)
next
  case False then show ?thesis by (auto simp: strip_cr_def)
qed

lemma processLine_strip_cr: "processLine parse (strip_cr l) = processLine parse l"
  by (simp add: processLine_def trim_strip_cr)

lemma processLine_Nil: "processLine parse [] = []"
  by (simp add: processLine_def trim_def)

lemma processLine_blank: "trim l = [] \<Longrightarrow> processLine parse l = []"
  by (simp add: processLine_def)

lemma processFrame_lines:
  "processFrame parse f =
     concat (map (processLine parse) (fst (fallback_loop f))) @ processLine parse (snd (fallback_loop f))"
proof (induction f rule: length_induct)
  case (1 f)
  show ?case
  proof (cases f rule: fallback_cases)
    case none then show ?thesis by (simp add: fallback_no_LF processFrame_def split_lines_no_LF)
  next
    case (cut l r)
    with 1 have "processFrame parse r =
      concat (map (processLine parse) (fst (fallback_loop r))) @ processLine parse (snd (fallback_loop r))"
      by blast
    then show ?thesis using cut
      by (simp add: fallback_cut processFrame_def split_lines_cut processLine_strip_cr)
  qed
qed

lemma fallback_frame:
  "fallback_loop (f @ CHR 0x0A # CHR 0x0A # r) =
     (fst (fallback_loop f) @ snd (fallback_loop f) # [] # fst (fallback_loop r), snd (fallback_loop r))"
proof -
  have "fallback_loop (f @ CHR 0x0A # CHR 0x0A # r) =
     (fst (fallback_loop f) @ fst (fallback_loop (snd (fallback_loop f) @ CHR 0x0A # CHR 0x0A # r)),
      snd (fallback_loop (snd (fallback_loop f) @ CHR 0x0A # CHR 0x0A # r)))"
    by (rule fallback_append)
  moreover have "fallback_loop (snd (fallback_loop f) @ CHR 0x0A # CHR 0x0A # r) =
      (snd (fallback_loop f) # fst (fallback_loop (CHR 0x0A # r)), snd (fallback_loop (CHR 0x0A # r)))"
    by (rule fallback_cut) (rule fallback_rest_no_LF)
  moreover have "fallback_loop (CHR 0x0A # r) = ([] # fst (fallback_loop r), snd (fallback_loop r))"
    using fallback_cut [of "[]" r] by simp
  ultimately show ?thesis by simp
qed

lemma primary_lines:
  "concat (map (processFrame parse) (fst (primary_loop s))) @ line_writes parse (snd (primary_loop s))
     = line_writes parse s \<and>
   snd (fallback_loop (snd (primary_loop s))) = snd (fallback_loop s)"
proof (induction s rule: length_induct)
  case (1 s)
  show ?case
  proof (cases "indexOf s ''\<newline>\<newline>''")
    case None
    then show ?thesis by (subst (1 2 3) primary_loop.simps) simp
  next
    case (Some i)
    define f where "f = take i s"
    define r where "r = drop (i + 2) s"
    from indexOf_Some [OF Some] have s: "s = f @ CHR 0x0A # CHR 0x0A # r"
      by (simp add: f_def r_def)
    then have "length r < length s" by simp
    with 1 have ih: "concat (map (processFrame parse) (fst (primary_loop r))) @ line_writes parse (snd (primary_loop r))
        = line_writes parse r" "snd (fallback_loop (snd (primary_loop r))) = snd (fallback_loop r)"
      by blast+
    have p: "primary_loop s = (f # fst (primary_loop r), snd (primary_loop r))"
      by (subst primary_loop.simps) (simp add: Some f_def r_def split: prod.splits)
    have "line_writes parse s = processFrame parse f @ line_writes parse r"
      unfolding s line_writes_def fallback_frame
      by (simp add: processFrame_lines processLine_Nil)
    moreover have "snd (fallback_loop s) = snd (fallback_loop r)"
      unfolding s fallback_frame by simp
    ultimately show ?thesis using ih by (simp add: p)
  qed
qed

lemma handleText_writes:
  "fst (snd (snd (handleText parse b c))) = line_writes parse (b @ c)"
  using primary_lines [of parse "b @ c"]
  by (simp add: handleText_def line_writes_def case_prod_beta)

lemma handleText_buffer:
  "snd (snd (snd (handleText parse b c))) = snd (fallback_loop (b @ c))"
  using primary_lines [of parse "b @ c"]
  by (simp add: handleText_def case_prod_beta)

lemma line_writes_append:
  "line_writes parse (x @ y) = line_writes parse x @ line_writes parse (snd (fallback_loop x) @ y)"
  unfolding line_writes_def by (subst fallback_append) simp

lemma rest_append:
  "snd (fallback_loop (x @ y)) = snd (fallback_loop (snd (fallback_loop x) @ y))"
  by (subst fallback_append) simp

lemma feed_writes:
  "CHR 0x0A \<notin> set b \<Longrightarrow>
   fst (snd (feed parse b cs)) = line_writes parse (b @ concat cs) \<and>
   snd (snd (feed parse b cs)) = snd (fallback_loop (b @ concat cs))"
proof (induction cs arbitrary: b)
  case Nil
  then show ?case by (simp add: line_writes_def fallback_no_LF)
next
  case (Cons c cs)
  let ?b = "snd (fallback_loop (b @ c))"
  have "feed parse b (c # cs) =
     (map Frame (fst (handleText parse b c)) @ map Line (fst (snd (handleText parse b c))) @ fst (feed parse ?b cs),
      line_writes parse (b @ c) @ fst (snd (feed parse ?b cs)), snd (snd (feed parse ?b cs)))"
    using handleText_writes [of parse b c] handleText_buffer [of parse b c]
    by (simp add: case_prod_beta)
  then show ?case
    using Cons.IH [of ?b, OF fallback_rest_no_LF] line_writes_append [of parse "b @ c" "concat cs"] rest_append [of "b @ c" "concat cs"]
    by simp
qed

lemma end_flush_writes:
  assumes "CHR 0x0A \<notin> set b"
  shows "fst (snd (end_flush parse b)) = processLine parse b"
proof (cases "trim b = []")
  case True
  then show ?thesis by (simp add: end_flush_def processLine_blank)
next
  case False
  have "fallback_loop (b @ ''\<newline>'') = ([b], [])"
    using fallback_cut [OF assms, of "[]"] by (simp add: fallback_no_LF)
  then have "line_writes parse (b @ ''\<newline>'') = processLine parse b"
    by (simp add: line_writes_def)
  with False show ?thesis
    using handleText_writes [of parse b "''\<newline>''"]
    by (simp add: end_flush_def case_prod_beta)
qed

lemma reassemble_writes:
  "snd (reassemble parse cs) =
     line_writes parse (concat cs) @ processLine parse (snd (fallback_loop (concat cs)))"
  using feed_writes [of "[]" parse cs] end_flush_writes [OF fallback_rest_no_LF, of parse "concat cs"]
  by (simp add: reassemble_def case_prod_beta)

lemma run_Nil: "run k parse s [] = s"
  by (simp add: run_def)

lemma run_Cons: "run k parse s (ev # evs) = run k parse (step k parse s ev) evs"
  by (simp add: run_def)

lemma run_append: "run k parse s (a @ b) = run k parse (run k parse s a) b"
  by (simp add: run_def)

lemma step_dead: "\<not> hb s \<Longrightarrow> \<not> live s \<Longrightarrow> step k parse s ev = s"
  by (cases ev) simp_all

lemma run_dead: "\<not> hb s \<Longrightarrow> \<not> live s \<Longrightarrow> run k parse s evs = s"
  by (induction evs) (simp_all add: run_Nil run_Cons step_dead)

lemma run_finished: "run k parse (finished tr) evs = finished tr"
  by (rule run_dead) (simp_all add: finished_def)

lemma on_data_fields: "live (on_data parse s t) = live s" "hb (on_data parse s t) = hb s"
  by (simp_all add: on_data_def case_prod_beta)

lemma run_live:
  "terminal pre = None \<Longrightarrow> live (run k parse s pre) = live s \<and> hb (run k parse s pre) = hb s"
proof (induction pre arbitrary: s)
  case Nil then show ?case by (simp add: run_Nil)
next
  case (Cons ev pre)
  then show ?case by (cases ev) (simp_all add: run_Cons on_data_fields)
qed

lemma step_emitter: "emitter (step k parse s ev) = emitter s"
  by (cases ev) (simp_all add: on_data_def on_end_def on_error_def flushDone_def case_prod_beta)

lemma run_emitter: "emitter (run k parse s evs) = emitter s"
  by (induction evs arbitrary: s) (simp_all add: run_Nil run_Cons step_emitter)

lemma run_ticks: "\<not> hb s \<Longrightarrow> set evs \<subseteq> {Tick} \<Longrightarrow> run k parse s evs = s"
  by (induction evs) (simp_all add: run_Nil run_Cons)

lemma end_flush_line:
  assumes "trim b \<noteq> []" and "CHR 0x0A \<notin> set b"
  shows "end_flush parse b = ([Line b], processLine parse b, [])"
proof -
  from assms(2) have n: "indexOf (b @ ''\<newline>'') ''\<newline>\<newline>'' = None"
    by (induction b) auto
  have p: "primary_loop (b @ ''\<newline>'') = ([], b @ ''\<newline>'')"
    by (subst primary_loop.simps) (simp add: n)
  have f: "fallback_loop (b @ ''\<newline>'') = ([b], [])"
    using assms(2) fallback_cut [of b "[]"] by (simp add: fallback_no_LF)
  show ?thesis
    using assms(1) by (simp add: end_flush_def handleText_def p f)
qed

lemma run_data:
  "live s \<Longrightarrow>
     run k parse s (map Data cs) =
       s\<lparr>trace := trace s @ map Write (fst (snd (feed parse (buffer s) cs))),
         buffer := snd (snd (feed parse (buffer s) cs))\<rparr>"
proof (induction cs arbitrary: s)
  case Nil
  then show ?case by (simp add: run_Nil)
next
  case (Cons c cs)
  have l: "live (on_data parse s c)" using Cons.prems by (simp add: on_data_fields)
  show ?case
    using Cons.prems Cons.IH [OF l]
    by (simp add: run_Cons on_data_def case_prod_beta)
qed

lemma on_end_flush:
  "on_end parse s =
     s\<lparr>trace := trace s @ map Write (fst (snd (end_flush parse (buffer s)))) @
                 [ClearInterval, Write DoneEvent, Write DoneData, EndRes],
       buffer := snd (snd (end_flush parse (buffer s))), hb := False, live := emitter s\<rparr>"
  by (simp add: on_end_def end_flush_def flushDone_def on_data_def case_prod_beta)

lemma run_stream_end:
  assumes "live s" and "buffer s = []"
  shows "run k parse s (map Data cs @ [End]) =
     s\<lparr>trace := trace s @ map Write (snd (reassemble parse cs)) @
                 [ClearInterval, Write DoneEvent, Write DoneData, EndRes],
       buffer := (if trim (snd (fallback_loop (concat cs))) = [] then snd (fallback_loop (concat cs)) else []),
       hb := False, live := emitter s\<rparr>"
proof -
  have b: "snd (snd (feed parse [] cs)) = snd (fallback_loop (concat cs))"
    using feed_writes [of "[]" parse cs] by simp
  have n: "CHR 0x0A \<notin> set (snd (fallback_loop (concat cs)))" by (rule fallback_rest_no_LF)
  have e: "snd (snd (end_flush parse (snd (fallback_loop (concat cs))))) =
      (if trim (snd (fallback_loop (concat cs))) = [] then snd (fallback_loop (concat cs)) else [])"
    using end_flush_line [OF _ n, of parse] by (simp add: end_flush_def)
  show ?thesis
    using assms
    by (simp add: run_append run_data run_Cons run_Nil on_end_flush b e reassemble_def case_prod_beta)
qed

text \<open>
  Claim C2 as stated fails for the cuts: the same text, split differently, is cut into
  different units. A frame whose lines arrive in separate chunks is consumed line by line
  by the single-newline loop, and a delimiter that spans two chunks is never seen by the
  double-newline loop.
\<close>

theorem chunk_cuts_counterexample:
  "concat [''event: message\<newline>'' @ data_line ''Hi'' @ ''\<newline>\<newline>''] =
     concat [''event: message\<newline>'', data_line ''Hi'' @ ''\<newline>\<newline>'']
   \<and> fst (reassemble sample_parse [''event: message\<newline>'' @ data_line ''Hi'' @ ''\<newline>\<newline>'']) =
       [Frame (''event: message\<newline>'' @ data_line ''Hi'')]
   \<and> fst (reassemble sample_parse [''event: message\<newline>'', data_line ''Hi'' @ ''\<newline>\<newline>'']) =
       [Line ''event: message'', Frame (data_line ''Hi'')]
   \<and> concat [data_line ''Hi'' @ ''\<newline>\<newline>''] = concat [data_line ''Hi'' @ ''\<newline>'', ''\<newline>'']
   \<and> fst (reassemble sample_parse [data_line ''Hi'' @ ''\<newline>\<newline>'']) = [Frame (data_line ''Hi'')]
   \<and> fst (reassemble sample_parse [data_line ''Hi'' @ ''\<newline>'', ''\<newline>'']) = [Line (data_line ''Hi''), Line []]"
  by code_simp

text \<open>
  Claim C2, amended. For all chunkings of the same text, \<open>handleText\<close> driven over the
  chunks, with the flush at the end of the stream, writes the same fragments in the same
  order; a session that reads the chunks and then the end of the stream is left in the
  same state by both chunkings.
\<close>

theorem chunk_independence:
  "concat cs1 = concat cs2 \<Longrightarrow>
     snd (reassemble parse cs1) = snd (reassemble parse cs2)
     \<and> (live s \<and> buffer s = [] \<longrightarrow>
          run k parse s (map Data cs1 @ [End]) = run k parse s (map Data cs2 @ [End]))"
  by (simp add: reassemble_writes run_stream_end)

theorem chunk_independence_witness:
  "concat [data_line ''Hi'' @ ''\<newline>'', ''\<newline>'' @ data_line '' there'' @ ''\<newline>'', ''\<newline>''] =
     concat [data_line ''Hi'' @ ''\<newline>\<newline>'' @ data_line '' there'' @ ''\<newline>\<newline>'']
   \<and> snd (reassemble sample_parse [data_line ''Hi'' @ ''\<newline>'', ''\<newline>'' @ data_line '' there'' @ ''\<newline>'', ''\<newline>'']) =
       snd (reassemble sample_parse [data_line ''Hi'' @ ''\<newline>\<newline>'' @ data_line '' there'' @ ''\<newline>\<newline>''])
   \<and> snd (reassemble sample_parse [data_line ''Hi'' @ ''\<newline>\<newline>'' @ data_line '' there'' @ ''\<newline>\<newline>'']) =
       [DataEvent ''Hi'', DataEvent '' there'']
   \<and> live fresh_session \<and> buffer fresh_session = []
   \<and> run Router sample_parse fresh_session
         (map Data [data_line ''Hi'' @ ''\<newline>'', ''\<newline>'' @ data_line '' there'' @ ''\<newline>'', ''\<newline>''] @ [End]) =
       run Router sample_parse fresh_session
         (map Data [data_line ''Hi'' @ ''\<newline>\<newline>'' @ data_line '' there'' @ ''\<newline>\<newline>''] @ [End])
   \<and> trace (run Router sample_parse fresh_session
         (map Data [data_line ''Hi'' @ ''\<newline>\<newline>'' @ data_line '' there'' @ ''\<newline>\<newline>''] @ [End])) =
       [SetInterval, Write (DataEvent ''Hi''), Write (DataEvent '' there''), ClearInterval,
        Write DoneEvent, Write DoneData, EndRes]"
proof -
  have c: "concat [data_line ''Hi'' @ ''\<newline>'', ''\<newline>'' @ data_line '' there'' @ ''\<newline>'', ''\<newline>''] =
     concat [data_line ''Hi'' @ ''\<newline>\<newline>'' @ data_line '' there'' @ ''\<newline>\<newline>'']" by simp
  have v: "snd (reassemble sample_parse [data_line ''Hi'' @ ''\<newline>\<newline>'' @ data_line '' there'' @ ''\<newline>\<newline>'']) =
       [DataEvent ''Hi'', DataEvent '' there'']" by code_simp
  have f: "live fresh_session \<and> buffer fresh_session = []" by (simp add: fresh_session_def)
  have t: "trace (run Router sample_parse fresh_session
         (map Data [data_line ''Hi'' @ ''\<newline>\<newline>'' @ data_line '' there'' @ ''\<newline>\<newline>''] @ [End])) =
       [SetInterval, Write (DataEvent ''Hi''), Write (DataEvent '' there''), ClearInterval,
        Write DoneEvent, Write DoneData, EndRes]" by code_simp
  note th = chunk_independence [OF c, of sample_parse fresh_session Router]
  from th have 1: "snd (reassemble sample_parse [data_line ''Hi'' @ ''\<newline>'', ''\<newline>'' @ data_line '' there'' @ ''\<newline>'', ''\<newline>'']) =
       snd (reassemble sample_parse [data_line ''Hi'' @ ''\<newline>\<newline>'' @ data_line '' there'' @ ''\<newline>\<newline>''])"
    by blast
  from th f have 2: "run Router sample_parse fresh_session
         (map Data [data_line ''Hi'' @ ''\<newline>'', ''\<newline>'' @ data_line '' there'' @ ''\<newline>'', ''\<newline>''] @ [End]) =
       run Router sample_parse fresh_session
         (map Data [data_line ''Hi'' @ ''\<newline>\<newline>'' @ data_line '' there'' @ ''\<newline>\<newline>''] @ [End])"
    by blast
  from c v f t 1 2 show ?thesis by simp
qed

lemma primary_drained: "indexOf (snd (primary_loop s)) ''\<newline>\<newline>'' = None"
proof (induction s rule: length_induct)
  case (1 s)
  show ?case
  proof (cases "indexOf s ''\<newline>\<newline>''")
    case None
    then show ?thesis by (subst primary_loop.simps) simp
  next
    case (Some i)
    from indexOf_Some [OF Some] have "s = take i s @ ''\<newline>\<newline>'' @ drop (i + 2) s" by simp
    then have "length (drop (i + 2) s) < length s" by (cases s) auto
    with 1 have "indexOf (snd (primary_loop (drop (i + 2) s))) ''\<newline>\<newline>'' = None" by blast
    then show ?thesis by (subst primary_loop.simps) (simp add: Some case_prod_beta)
  qed
qed

text \<open>
  Claim C3 as stated fails: while the stream is still delivering chunks, each call of
  \<open>handleText\<close> runs the single-newline loop, which cuts and processes the buffered line.
\<close>

theorem fallback_counterexample:
  "feed sample_parse [] [data_line ''Hi'' @ ''\<newline>'', data_line '' there'' @ ''\<newline>''] =
     ([Line (data_line ''Hi''), Line (data_line '' there'')], [DataEvent ''Hi'', DataEvent '' there''], [])"
  by code_simp

text \<open>
  Claim C3, amended. In every call of \<open>handleText\<close> the single-newline loop runs on what
  the double-newline loop has left, which holds no double newline, and leaves a buffer
  without newline. At the end of the stream nothing more is cut when the buffer is
  blank; otherwise one more call of \<open>handleText\<close> cuts the buffer as a single line.
\<close>

theorem fallback_every_call:
  "fst (handleText parse b c) = fst (primary_loop (b @ c))
   \<and> indexOf (snd (primary_loop (b @ c))) ''\<newline>\<newline>'' = None
   \<and> (fst (snd (handleText parse b c)), snd (snd (snd (handleText parse b c))))
        = fallback_loop (snd (primary_loop (b @ c)))
   \<and> CHR 0x0A \<notin> set (snd (snd (snd (handleText parse b c))))
   \<and> (trim b = [] \<longrightarrow> end_flush parse b = ([], [], b))
   \<and> (trim b \<noteq> [] \<and> CHR 0x0A \<notin> set b \<longrightarrow> end_flush parse b = ([Line b], processLine parse b, []))"
proof (intro conjI impI)
  show "fst (handleText parse b c) = fst (primary_loop (b @ c))"
    by (simp add: handleText_def case_prod_beta)
  show "indexOf (snd (primary_loop (b @ c))) ''\<newline>\<newline>'' = None"
    by (rule primary_drained)
  show "(fst (snd (handleText parse b c)), snd (snd (snd (handleText parse b c))))
        = fallback_loop (snd (primary_loop (b @ c)))"
    by (simp add: handleText_def case_prod_beta)
  show "CHR 0x0A \<notin> set (snd (snd (snd (handleText parse b c))))"
    using fallback_rest_no_LF [of "snd (primary_loop (b @ c))"]
    by (simp add: handleText_def case_prod_beta)
  show "end_flush parse b = ([], [], b)" if "trim b = []"
    using that by (simp add: end_flush_def)
next
  assume "trim b \<noteq> [] \<and> CHR 0x0A \<notin> set b"
  then show "end_flush parse b = ([Line b], processLine parse b, [])"
    by (simp add: end_flush_line)
qed

theorem fallback_every_call_witness:
  "trim ''  '' = [] \<and> end_flush sample_parse ''  '' = ([], [], ''  '')
   \<and> trim (data_line ''Hi'') \<noteq> [] \<and> CHR 0x0A \<notin> set (data_line ''Hi'')
   \<and> end_flush sample_parse (data_line ''Hi'') = ([Line (data_line ''Hi'')], [DataEvent ''Hi''], [])"
proof -
  have a: "trim ''  '' = []" by code_simp
  have b: "trim (data_line ''Hi'') \<noteq> [] \<and> CHR 0x0A \<notin> set (data_line ''Hi'')" by code_simp
  have c: "processLine sample_parse (data_line ''Hi'') = [DataEvent ''Hi'']" by code_simp
  note t = fallback_every_call [of sample_parse]
  from t [of "''  ''"] a have "end_flush sample_parse ''  '' = ([], [], ''  '')" by blast
  moreover from t [of "data_line ''Hi''"] b
  have "end_flush sample_parse (data_line ''Hi'') = ([Line (data_line ''Hi'')], processLine sample_parse (data_line ''Hi''), [])"
    by blast
  ultimately show ?thesis using a b c by simp
qed









section \<open>The handlers and the streaming session: proofs\<close>

lemma finished_not_live: "\<not> live (finished tr)"
  by (simp add: finished_def)

lemma catch_not_live: "\<not> live (catch_stream tr m)"
  by (simp add: catch_stream_def)

lemma route_stream_live:
  assumes "live (route_stream e req tr0)"
  shows "\<exists>effs. trace (route_stream e req tr0) = tr0 @ sse_headers (env_hasFlush e) @ SetInterval # effs"
proof -
  from assms have v: "valid_prompt (req_prompt req)"
    by (auto simp: route_stream_def finished_not_live split: if_splits)
  obtain effs r where g: "streamGenerateContent e (the (req_prompt req)) = (effs, r)"
    by (cases "streamGenerateContent e (the (req_prompt req))")
  show ?thesis
  proof (cases r)
    case (Inl m)
    with assms v g show ?thesis by (simp add: route_stream_def catch_not_live)
  next
    case (Inr up)
    show ?thesis
    proof (cases "up_body up")
      case None
      with assms v g Inr show ?thesis by (simp add: route_stream_def catch_not_live)
    next
      case (Some sh)
      with assms v g Inr show ?thesis
        by (cases sh) (simp_all add: route_stream_def catch_not_live)
    qed
  qed
qed

lemma router_live_headers:
  assumes "live (fst (handler_router e req st))"
  shows "SetHeader ''Content-Type'' ''text/event-stream'' \<in> set (trace (fst (handler_router e req st)))"
proof -
  from assms have r: "fst (handler_router e req st) = route_stream e req cors"
    by (simp add: handler_router_def case_prod_beta finished_not_live split: if_splits)
  with assms route_stream_live [of e req cors] show ?thesis
    by (auto simp: sse_headers_def)
qed

lemma stream_live_headers:
  assumes "live (handler_stream e req)"
  shows "SetHeader ''Content-Type'' ''text/event-stream'' \<in> set (trace (handler_stream e req))"
proof (cases "env_fetch e")
  case (NetworkError m)
  with assms show ?thesis
    by (simp add: handler_stream_def finished_not_live Let_def split: if_splits)
next
  case (Response up)
  show ?thesis
  proof (cases "up_body up")
    case None
    with assms Response show ?thesis
      by (simp add: handler_stream_def finished_not_live Let_def split: if_splits)
  next
    case (Some sh)
    with assms Response show ?thesis
      by (cases sh) (simp_all add: handler_stream_def finished_not_live Let_def sse_headers_def split: if_splits)
  qed
qed

text \<open>The definitions that evaluate a handler at a concrete request.\<close>

lemmas handler_eval =
  handler_router_def handler_stream_def handler_completion_def route_stream_def route_completion_def
  route_silent_def route_stream_silent_def streamGenerateContent_def generateContent_def catch_stream_def
  catch_status_def geminiRateLimiter_def prune_def limit_status_def MAX_REQ_def WINDOW_MS_def maxChars_def
  INPUT_TOKEN_LIMIT_def APPROX_CHARS_PER_TOKEN_def valid_prompt_def ok_def or_default_def finished_def
  headersSent_def error_body_def decimal.simps Let_def
  sample_env_def post_req_def init_def

lemma unavailable_setup:
  "fst (handler_router (sample_env\<lparr>env_fetch := Response unavailable, env_events := evs\<rparr>) post_req init) =
     \<lparr>trace = cors @ sse_headers True @
        [SetInterval, Fetch ''hello'',
         Write (ErrorEvent ''Gemini streaming error 503 Service Unavailable: overloaded''), EndRes],
      hb = True, buffer = [], live = False, emitter = False\<rparr>"
  by (simp add: handler_eval unavailable_def sse_headers_def cors_def)

text \<open>
  Claim C1 at a failing input. The router handler arms the heartbeat timer before the
  upstream call. When the provider answers 503 the \<open>catch\<close> writes the error event and
  ends the response, and never clears the timer: it stays armed, and its next tick
  writes a ping after the response has ended.
\<close>

theorem heartbeat_survives_setup_failure:
  "exchange_router sample_parse (sample_env\<lparr>env_fetch := Response unavailable, env_events := [Tick]\<rparr>) post_req init =
     \<lparr>trace = cors @ sse_headers True @
        [SetInterval, Fetch ''hello'',
         Write (ErrorEvent ''Gemini streaming error 503 Service Unavailable: overloaded''), EndRes, Write Ping],
      hb = True, buffer = [], live = False, emitter = False\<rparr>"
  by (simp add: exchange_router_def unavailable_setup run_Cons run_Nil)

lemma streaming_setup:
  "handler_stream (sample_env\<lparr>env_fetch := Response streaming, env_events := evs\<rparr>) post_req =
     \<lparr>trace = cors @ [Fetch ''hello''] @ sse_headers True @ [SetInterval],
      hb = True, buffer = [], live = True, emitter = False\<rparr>"
  by (simp add: handler_eval streaming_def)

lemma streaming_run:
  "run Standalone sample_parse
     \<lparr>trace = cors @ [Fetch ''hello''] @ sse_headers True @ [SetInterval], hb = True, buffer = [], live = True, emitter = False\<rparr>
     stream_error_events =
   \<lparr>trace = cors @ [Fetch ''hello''] @ sse_headers True @
        [SetInterval, Write (DataEvent ''Hi''), Write Ping, ClearInterval, EndRes],
      hb = False, buffer = [], live = False, emitter = False\<rparr>"
  by code_simp

text \<open>
  Claim C6 as stated fails for the standalone handler: when the body stream fails after
  a frame has been relayed, the timer is cleared and the response ends, and no error
  event is written.
\<close>

theorem stream_error_counterexample:
  "exchange_stream sample_parse (sample_env\<lparr>env_fetch := Response streaming, env_events := stream_error_events\<rparr>) post_req =
     \<lparr>trace = cors @ [Fetch ''hello''] @ sse_headers True @
        [SetInterval, Write (DataEvent ''Hi''), Write Ping, ClearInterval, EndRes],
      hb = False, buffer = [], live = False, emitter = False\<rparr>"
proof -
  have "env_events (sample_env\<lparr>env_fetch := Response streaming, env_events := stream_error_events\<rparr>) =
      stream_error_events" by simp
  then show ?thesis
    unfolding exchange_stream_def streaming_setup by (simp only: streaming_run)
qed

text \<open>
  Claim C6, amended. When the body stream fails while a session is being read, the
  router handler clears the timer, writes one error event that carries the message of
  the failure (\<open>stream error\<close> when the message is empty) and ends the response; the
  standalone handler clears the timer and ends the response without an error event.
  The stream headers have been set by then. Nothing is written afterwards when the body
  is a web stream or an async iterable, whatever follows, and when only ticks of the
  timer follow. The listeners on a Node stream stay attached: what it delivers after
  the failure is handled again.
\<close>

theorem stream_error_handling:
  assumes "env_events e = pre @ Error m # post" and "terminal pre = None"
  shows "(live (fst (handler_router e req st)) \<longrightarrow>
            trace (run Router parse (fst (handler_router e req st)) (pre @ [Error m])) =
              trace (run Router parse (fst (handler_router e req st)) pre) @
              [ClearInterval, Write (ErrorEvent (if m = [] then ''stream error'' else m)), EndRes]
          \<and> \<not> hb (run Router parse (fst (handler_router e req st)) (pre @ [Error m]))
          \<and> (\<not> emitter (fst (handler_router e req st)) \<or> set post \<subseteq> {Tick} \<longrightarrow>
               exchange_router parse e req st =
                 run Router parse (fst (handler_router e req st)) (pre @ [Error m]))
          \<and> SetHeader ''Content-Type'' ''text/event-stream'' \<in> set (trace (fst (handler_router e req st))))
       \<and> (live (handler_stream e req) \<longrightarrow>
            trace (run Standalone parse (handler_stream e req) (pre @ [Error m])) =
              trace (run Standalone parse (handler_stream e req) pre) @ [ClearInterval, EndRes]
          \<and> \<not> hb (run Standalone parse (handler_stream e req) (pre @ [Error m]))
          \<and> (\<not> emitter (handler_stream e req) \<or> set post \<subseteq> {Tick} \<longrightarrow>
               exchange_stream parse e req = run Standalone parse (handler_stream e req) (pre @ [Error m]))
          \<and> SetHeader ''Content-Type'' ''text/event-stream'' \<in> set (trace (handler_stream e req)))"
proof (intro conjI impI)
  have fail: "run k parse s (pre @ [Error m]) = on_error k (run k parse s pre) m" if "live s" for k s
  proof -
    from run_live [OF assms(2), of k parse s] that have "live (run k parse s pre)" by simp
    then show ?thesis by (simp add: run_append run_Cons run_Nil)
  qed
  have rest: "run k parse s (pre @ Error m # post) = run k parse s (pre @ [Error m])"
    if "live s" and "\<not> emitter s \<or> set post \<subseteq> {Tick}" for k s
  proof -
    let ?t = "run k parse s (pre @ [Error m])"
    have h: "\<not> hb ?t" and l: "live ?t = emitter s"
      unfolding fail [OF that(1)] by (simp_all add: on_error_def run_emitter)
    have "run k parse s (pre @ Error m # post) = run k parse ?t post"
      by (simp add: run_append run_Cons run_Nil)
    also have "\<dots> = ?t"
    proof (cases "emitter s")
      case False
      with h l show ?thesis by (simp add: run_dead)
    next
      case True
      with that(2) h show ?thesis by (simp add: run_ticks)
    qed
    finally show ?thesis .
  qed
  {
    assume l: "live (fst (handler_router e req st))"
    show "trace (run Router parse (fst (handler_router e req st)) (pre @ [Error m])) =
              trace (run Router parse (fst (handler_router e req st)) pre) @
              [ClearInterval, Write (ErrorEvent (if m = [] then ''stream error'' else m)), EndRes]"
      and "\<not> hb (run Router parse (fst (handler_router e req st)) (pre @ [Error m]))"
      unfolding fail [OF l] by (simp_all add: on_error_def or_default_def)
    show "exchange_router parse e req st =
                 run Router parse (fst (handler_router e req st)) (pre @ [Error m])"
      if "\<not> emitter (fst (handler_router e req st)) \<or> set post \<subseteq> {Tick}"
      using rest [OF l that] by (simp add: exchange_router_def assms(1))
    from l show "SetHeader ''Content-Type'' ''text/event-stream'' \<in> set (trace (fst (handler_router e req st)))"
      by (rule router_live_headers)
  }
  {
    assume l: "live (handler_stream e req)"
    show "trace (run Standalone parse (handler_stream e req) (pre @ [Error m])) =
              trace (run Standalone parse (handler_stream e req) pre) @ [ClearInterval, EndRes]"
      and "\<not> hb (run Standalone parse (handler_stream e req) (pre @ [Error m]))"
      unfolding fail [OF l] by (simp_all add: on_error_def)
    show "exchange_stream parse e req = run Standalone parse (handler_stream e req) (pre @ [Error m])"
      if "\<not> emitter (handler_stream e req) \<or> set post \<subseteq> {Tick}"
      using rest [OF l that] by (simp add: exchange_stream_def assms(1))
    from l show "SetHeader ''Content-Type'' ''text/event-stream'' \<in> set (trace (handler_stream e req))"
      by (rule stream_live_headers)
  }
qed

theorem stream_error_handling_witness:
  "env_events (sample_env\<lparr>env_fetch := Response streaming, env_events := stream_error_events\<rparr>) =
     [Data (data_line ''Hi'' @ ''\<newline>\<newline>''), Tick] @ Error ''socket hang up'' # [Tick]
   \<and> terminal [Data (data_line ''Hi'' @ ''\<newline>\<newline>''), Tick] = None
   \<and> live (fst (handler_router (sample_env\<lparr>env_fetch := Response streaming, env_events := stream_error_events\<rparr>) post_req init))
   \<and> \<not> emitter (fst (handler_router (sample_env\<lparr>env_fetch := Response streaming, env_events := stream_error_events\<rparr>) post_req init))
   \<and> trace (exchange_router sample_parse (sample_env\<lparr>env_fetch := Response streaming, env_events := stream_error_events\<rparr>) post_req init) =
       cors @ sse_headers True @
        [SetInterval, Fetch ''hello'', Write (DataEvent ''Hi''), Write Ping, ClearInterval,
         Write (ErrorEvent ''socket hang up''), EndRes]
   \<and> live (handler_stream (sample_env\<lparr>env_fetch := Response streaming, env_events := stream_error_events\<rparr>) post_req)
   \<and> \<not> emitter (handler_stream (sample_env\<lparr>env_fetch := Response streaming, env_events := stream_error_events\<rparr>) post_req)
   \<and> trace (exchange_stream sample_parse (sample_env\<lparr>env_fetch := Response streaming, env_events := stream_error_events\<rparr>) post_req) =
       cors @ [Fetch ''hello''] @ sse_headers True @
        [SetInterval, Write (DataEvent ''Hi''), Write Ping, ClearInterval, EndRes]"
proof -
  let ?e = "sample_env\<lparr>env_fetch := Response streaming, env_events := stream_error_events\<rparr>"
  let ?pre = "[Data (data_line ''Hi'' @ ''\<newline>\<newline>''), Tick]"
  have ev: "env_events ?e = ?pre @ Error ''socket hang up'' # [Tick]"
    by (simp add: stream_error_events_def)
  have t: "terminal ?pre = None" by simp
  have hr: "fst (handler_router ?e post_req init) =
     \<lparr>trace = cors @ sse_headers True @ [SetInterval, Fetch ''hello''], hb = True, buffer = [], live = True, emitter = False\<rparr>"
    by (simp add: handler_eval streaming_def)
  have rr: "trace (run Router sample_parse
      \<lparr>trace = cors @ sse_headers True @ [SetInterval, Fetch ''hello''], hb = True, buffer = [], live = True, emitter = False\<rparr>
      [Data (data_line ''Hi'' @ ''\<newline>\<newline>''), Tick]) =
      cors @ sse_headers True @ [SetInterval, Fetch ''hello'', Write (DataEvent ''Hi''), Write Ping]"
    by code_simp
  have rs: "trace (run Standalone sample_parse
      \<lparr>trace = cors @ [Fetch ''hello''] @ sse_headers True @ [SetInterval], hb = True, buffer = [], live = True, emitter = False\<rparr>
      [Data (data_line ''Hi'' @ ''\<newline>\<newline>''), Tick]) =
      cors @ [Fetch ''hello''] @ sse_headers True @ [SetInterval, Write (DataEvent ''Hi''), Write Ping]"
    by code_simp
  have lr: "live (fst (handler_router ?e post_req init))"
    and er: "\<not> emitter (fst (handler_router ?e post_req init))" unfolding hr by simp_all
  have ls: "live (handler_stream ?e post_req)"
    and es: "\<not> emitter (handler_stream ?e post_req)" unfolding streaming_setup by simp_all
  note th = stream_error_handling [OF ev t, of post_req init sample_parse]
  from th lr er have "trace (exchange_router sample_parse ?e post_req init) =
      trace (run Router sample_parse (fst (handler_router ?e post_req init)) ?pre) @
      [ClearInterval, Write (ErrorEvent (if ''socket hang up'' = [] then ''stream error'' else ''socket hang up'')), EndRes]"
    by metis
  then have 1: "trace (exchange_router sample_parse ?e post_req init) =
       cors @ sse_headers True @
        [SetInterval, Fetch ''hello'', Write (DataEvent ''Hi''), Write Ping, ClearInterval,
         Write (ErrorEvent ''socket hang up''), EndRes]"
    unfolding hr rr by simp
  from th ls es have "trace (exchange_stream sample_parse ?e post_req) =
      trace (run Standalone sample_parse (handler_stream ?e post_req) ?pre) @ [ClearInterval, EndRes]"
    by metis
  then have 2: "trace (exchange_stream sample_parse ?e post_req) =
       cors @ [Fetch ''hello''] @ sse_headers True @
        [SetInterval, Write (DataEvent ''Hi''), Write Ping, ClearInterval, EndRes]"
    unfolding streaming_setup rs by simp
  from ev t lr er ls es 1 2 show ?thesis by simp
qed

text \<open>
  A Node stream that still delivers a frame and its end after it has failed: the
  standalone handler writes the fragment and the done pair after the response has
  ended, and ends it a second time.
\<close>

lemma emitter_setup:
  "handler_stream (sample_env\<lparr>env_fetch := Response (streaming\<lparr>up_body := Some NodeEmitter\<rparr>),
       env_events := evs\<rparr>) post_req =
     \<lparr>trace = cors @ [Fetch ''hello''] @ sse_headers True @ [SetInterval],
      hb = True, buffer = [], live = True, emitter = True\<rparr>"
  by (simp add: handler_eval streaming_def)

lemma emitter_run:
  "run Standalone sample_parse
     \<lparr>trace = cors @ [Fetch ''hello''] @ sse_headers True @ [SetInterval], hb = True, buffer = [], live = True,
      emitter = True\<rparr>
     [Error ''socket hang up'', Data (data_line ''Hi'' @ ''\<newline>\<newline>''), End] =
   \<lparr>trace = cors @ [Fetch ''hello''] @ sse_headers True @
        [SetInterval, ClearInterval, EndRes, Write (DataEvent ''Hi''), ClearInterval,
         Write DoneEvent, Write DoneData, EndRes],
      hb = False, buffer = [], live = True, emitter = True\<rparr>"
  by code_simp

lemma emitter_after_failure:
  "exchange_stream sample_parse
     (sample_env\<lparr>env_fetch := Response (streaming\<lparr>up_body := Some NodeEmitter\<rparr>),
        env_events := [Error ''socket hang up'', Data (data_line ''Hi'' @ ''\<newline>\<newline>''), End]\<rparr>) post_req =
   \<lparr>trace = cors @ [Fetch ''hello''] @ sse_headers True @
        [SetInterval, ClearInterval, EndRes, Write (DataEvent ''Hi''), ClearInterval,
         Write DoneEvent, Write DoneData, EndRes],
      hb = False, buffer = [], live = True, emitter = True\<rparr>"
proof -
  have "env_events (sample_env\<lparr>env_fetch := Response (streaming\<lparr>up_body := Some NodeEmitter\<rparr>),
        env_events := [Error ''socket hang up'', Data (data_line ''Hi'' @ ''\<newline>\<newline>''), End]\<rparr>) =
      [Error ''socket hang up'', Data (data_line ''Hi'' @ ''\<newline>\<newline>''), End]" by simp
  then show ?thesis
    unfolding exchange_stream_def emitter_setup by (simp only: emitter_run)
qed

lemma headersSent_setup:
  "headersSent (cors @ sse_headers f @ [SetInterval, Fetch p] @ replicate n (Write Ping)) = (f \<or> 0 < n)"
  by (cases n) (auto simp: headersSent_def cors_def sse_headers_def)

text \<open>
  Claim C7 as stated fails for the router handler: it sets and flushes the stream
  headers before the upstream call, so a 503 of the provider arrives as an error event
  on the stream; there is no JSON response and no status 503.
\<close>

theorem upstream_status_counterexample:
  "fst (handler_router (sample_env\<lparr>env_fetch := Response unavailable\<rparr>) post_req init) =
     \<lparr>trace = cors @ sse_headers True @
        [SetInterval, Fetch ''hello'',
         Write (ErrorEvent ''Gemini streaming error 503 Service Unavailable: overloaded''), EndRes],
      hb = True, buffer = [], live = False, emitter = False\<rparr>"
  by (simp add: handler_eval unavailable_def sse_headers_def cors_def)

text \<open>
  Claim C7, amended. For a valid streaming request whose upstream call returns a status
  outside 200-299: the standalone handler answers with that status and one JSON error
  body, sets no stream headers and arms no timer. The router handler has already set
  the stream headers and armed the timer; it writes an error event and ends the
  response when the headers have gone out, and answers 500 with a JSON error body
  otherwise.
\<close>

theorem upstream_status_before_stream:
  assumes "req_method req = ''POST''" and "req_subpath req = ''stream''" and "env_apiKey e \<noteq> []"
    and "req_prompt req = Some p" and "p \<noteq> []" and "length p \<le> 200000"
    and "env_fetch e = Response up" and "\<not> ok up"
  shows "exchange_stream parse e req =
           finished (cors @ [Fetch p, Status (up_status up),
             Json (error_body (if up_detail up = [] then ''Gemini streaming error'' else up_detail up))])
       \<and> (fst (geminiRateLimiter (env_now e) st) \<longrightarrow>
            fst (handler_router e req st) =
              \<lparr>trace = cors @ sse_headers (env_hasFlush e) @ [SetInterval, Fetch p] @
                  replicate (env_pings e) (Write Ping) @
                  (if env_hasFlush e \<or> 0 < env_pings e
                   then [Write (ErrorEvent (''Gemini streaming error '' @ decimal (up_status up) @ '' '' @
                           up_statusText up @ (if up_detail up \<noteq> [] then '': '' @ up_detail up else []))), EndRes]
                   else [Status 500, Json (error_body (''Gemini streaming error '' @ decimal (up_status up) @ '' '' @
                           up_statusText up @ (if up_detail up \<noteq> [] then '': '' @ up_detail up else [])))]),
                hb = True, buffer = [], live = False, emitter = False\<rparr>)"
proof (intro conjI impI)
  have "handler_stream e req =
           finished (cors @ [Fetch p, Status (up_status up),
             Json (error_body (if up_detail up = [] then ''Gemini streaming error'' else up_detail up))])"
    using assms
    by (simp add: handler_stream_def valid_prompt_def INPUT_TOKEN_LIMIT_def APPROX_CHARS_PER_TOKEN_def
        or_default_def)
  then show "exchange_stream parse e req =
           finished (cors @ [Fetch p, Status (up_status up),
             Json (error_body (if up_detail up = [] then ''Gemini streaming error'' else up_detail up))])"
    by (simp add: exchange_stream_def run_finished)
next
  assume adm: "fst (geminiRateLimiter (env_now e) st)"
  let ?msg = "''Gemini streaming error '' @ decimal (up_status up) @ '' '' @
                           up_statusText up @ (if up_detail up \<noteq> [] then '': '' @ up_detail up else [])"
  have g: "streamGenerateContent e p = ([Fetch p], Inl ?msg)"
    using assms by (simp add: streamGenerateContent_def maxChars_def INPUT_TOKEN_LIMIT_def APPROX_CHARS_PER_TOKEN_def)
  have m: "or_default ?msg d = ?msg" for d by (simp add: or_default_def)
  have r: "route_stream e req cors =
     catch_stream (cors @ sse_headers (env_hasFlush e) @ [SetInterval, Fetch p] @ replicate (env_pings e) (Write Ping)) ?msg"
    using assms by (simp add: route_stream_def valid_prompt_def g)
  have "fst (handler_router e req st) = route_stream e req cors"
    using assms adm by (simp add: handler_router_def case_prod_beta)
  then show "fst (handler_router e req st) =
              \<lparr>trace = cors @ sse_headers (env_hasFlush e) @ [SetInterval, Fetch p] @
                  replicate (env_pings e) (Write Ping) @
                  (if env_hasFlush e \<or> 0 < env_pings e
                   then [Write (ErrorEvent ?msg), EndRes]
                   else [Status 500, Json (error_body ?msg)]),
                hb = True, buffer = [], live = False, emitter = False\<rparr>"
    unfolding r catch_stream_def headersSent_setup m by simp
qed

theorem upstream_status_before_stream_witness:
  "req_method post_req = ''POST'' \<and> req_subpath post_req = ''stream'' \<and> env_apiKey sample_env \<noteq> []
   \<and> req_prompt post_req = Some ''hello'' \<and> ''hello'' \<noteq> [] \<and> length ''hello'' \<le> 200000
   \<and> env_fetch (sample_env\<lparr>env_fetch := Response unavailable\<rparr>) = Response unavailable \<and> \<not> ok unavailable
   \<and> exchange_stream sample_parse (sample_env\<lparr>env_fetch := Response unavailable\<rparr>) post_req =
        finished (cors @ [Fetch ''hello'', Status 503, Json (error_body ''overloaded'')])
   \<and> fst (geminiRateLimiter (env_now (sample_env\<lparr>env_fetch := Response unavailable, env_hasFlush := False\<rparr>)) init)
   \<and> trace (fst (handler_router (sample_env\<lparr>env_fetch := Response unavailable, env_hasFlush := False\<rparr>) post_req init)) =
        cors @ sse_headers False @
        [SetInterval, Fetch ''hello'', Status 500,
         Json (error_body ''Gemini streaming error 503 Service Unavailable: overloaded'')]"
proof -
  let ?e = "sample_env\<lparr>env_fetch := Response unavailable\<rparr>"
  let ?f = "sample_env\<lparr>env_fetch := Response unavailable, env_hasFlush := False\<rparr>"
  have h: "req_method post_req = ''POST''" "req_subpath post_req = ''stream''" "env_apiKey sample_env \<noteq> []"
    "req_prompt post_req = Some ''hello''" "''hello'' \<noteq> []" "length ''hello'' \<le> 200000"
    "env_fetch ?e = Response unavailable" "\<not> ok unavailable"
    by (simp_all add: post_req_def sample_env_def ok_def unavailable_def)
  have k: "env_apiKey ?e \<noteq> []" "env_apiKey ?f \<noteq> []" "env_fetch ?f = Response unavailable"
    by (simp_all add: sample_env_def)
  have a: "fst (geminiRateLimiter (env_now ?f) init)"
    by (simp add: geminiRateLimiter_def prune_def init_def MAX_REQ_def Let_def)
  from upstream_status_before_stream [OF h(1) h(2) k(1) h(4) h(5) h(6) h(7) h(8), of sample_parse init]
  have 1: "exchange_stream sample_parse ?e post_req =
        finished (cors @ [Fetch ''hello'', Status 503, Json (error_body ''overloaded'')])"
    by (simp add: unavailable_def)
  from upstream_status_before_stream [OF h(1) h(2) k(2) h(4) h(5) h(6) k(3) h(8), of sample_parse init] a
  have "trace (fst (handler_router ?f post_req init)) =
        cors @ sse_headers False @
        [SetInterval, Fetch ''hello'', Status 500,
         Json (error_body (''Gemini streaming error '' @ decimal 503 @ '' '' @ ''Service Unavailable'' @ '': '' @ ''overloaded''))]"
    by (simp add: unavailable_def sample_env_def)
  then have 2: "trace (fst (handler_router ?f post_req init)) =
        cors @ sse_headers False @
        [SetInterval, Fetch ''hello'', Status 500,
         Json (error_body ''Gemini streaming error 503 Service Unavailable: overloaded'')]"
    by (simp add: decimal.simps)
  from h a 1 2 show ?thesis by simp
qed

text \<open>
  Claim C8 at a failing input. A prompt of 200001 characters on the router's \<open>stream\<close>
  route makes no upstream call, but the answer is not a 400: it is an error event on a
  stream whose headers are out, or 500 when they are not; on the route \<open>stream/silent\<close>
  it is 500. The router's completion route answers the same prompt with 400.
\<close>

theorem long_prompt_stream_route:
  "length long_prompt = 200001
   \<and> fst (handler_router sample_env (post_req\<lparr>req_prompt := Some long_prompt\<rparr>) init) =
       \<lparr>trace = cors @ sse_headers True @
          [SetInterval, Write (ErrorEvent ''Input too long, 50k tokens max''), EndRes],
        hb = True, buffer = [], live = False, emitter = False\<rparr>
   \<and> fst (handler_router (sample_env\<lparr>env_hasFlush := False\<rparr>) (post_req\<lparr>req_prompt := Some long_prompt\<rparr>) init) =
       \<lparr>trace = cors @ sse_headers False @
          [SetInterval, Status 500, Json (error_body ''Input too long, 50k tokens max'')],
        hb = True, buffer = [], live = False, emitter = False\<rparr>
   \<and> fst (handler_router sample_env (post_req\<lparr>req_subpath := ''stream/silent'', req_prompt := Some long_prompt\<rparr>) init) =
       finished (cors @ [Status 500, EndRes])
   \<and> fst (handler_router sample_env (post_req\<lparr>req_subpath := [], req_prompt := Some long_prompt\<rparr>) init) =
       finished (cors @ [Status 400, Json (error_body ''Input too long, 50k tokens max'')])"
  by (simp add: handler_eval long_prompt_def sse_headers_def cors_def)

text \<open>The standalone stream handler answers the same prompt with 400 and makes no upstream call.\<close>

lemma long_prompt_standalone:
  "handler_stream sample_env (post_req\<lparr>req_prompt := Some long_prompt\<rparr>) =
     finished (cors @ [Status 400, Json (error_body ''Input too long, 50k tokens max'')])"
  by (simp add: handler_eval long_prompt_def)

text \<open>
  Claim C10 as stated fails when the first part has a text that is not a string but is
  truthy: the handler returns it as it is.
\<close>

theorem completion_text_counterexample:
  "handler_completion (sample_env\<lparr>env_fetch := Response (completed numeric_text)\<rparr>) post_req =
     cors @ [Fetch ''hello'', Status 200, Json (JObject [(''text'', JNum 42)])]"
  by (simp add: handler_eval completed_def numeric_text_def first_text_def first_part_text_def)

text \<open>
  Claim C10, amended. For a valid completion request whose upstream call returns a
  status in 200-299 and a JSON body, both completion handlers answer 200 with the body
  \<open>{text: t}\<close>. \<open>t\<close> is the empty string when the body has no candidates, when the
  first candidate has no \<open>content.parts\<close>, and when the text of the first part is absent
  or falsy; otherwise \<open>t\<close> is that text, whatever its type.
\<close>

theorem completion_text:
  assumes "req_method req = ''POST''" and "env_apiKey e \<noteq> []"
    and "req_prompt req = Some p" and "p \<noteq> []" and "length p \<le> 200000"
    and "env_fetch e = Response up" and "ok up" and "up_data up = Inr d"
  shows "handler_completion e req = cors @ [Fetch p, Status 200, Json (JObject [(''text'', first_text d)])]
       \<and> (req_subpath req = [] \<and> fst (geminiRateLimiter (env_now e) st) \<longrightarrow>
            fst (handler_router e req st) =
              finished (cors @ [Fetch p, Status 200, Json (JObject [(''text'', first_text d)])]))
       \<and> (opt_prop (Some d) ''candidates'' = None \<longrightarrow> first_text d = JString [])
       \<and> (opt_prop (opt_prop (opt_first (opt_prop (Some d) ''candidates'')) ''content'') ''parts'' = None
            \<longrightarrow> first_text d = JString [])
       \<and> (truthy (first_part_text d) \<longrightarrow> Some (first_text d) = first_part_text d)
       \<and> (\<not> truthy (first_part_text d) \<longrightarrow> first_text d = JString [])"
proof (intro conjI impI)
  show "handler_completion e req = cors @ [Fetch p, Status 200, Json (JObject [(''text'', first_text d)])]"
    using assms
    by (simp add: handler_completion_def valid_prompt_def INPUT_TOKEN_LIMIT_def APPROX_CHARS_PER_TOKEN_def)
  show "fst (handler_router e req st) =
              finished (cors @ [Fetch p, Status 200, Json (JObject [(''text'', first_text d)])])"
    if "req_subpath req = [] \<and> fst (geminiRateLimiter (env_now e) st)"
    using assms that
    by (simp add: handler_router_def case_prod_beta route_completion_def valid_prompt_def generateContent_def
        maxChars_def INPUT_TOKEN_LIMIT_def APPROX_CHARS_PER_TOKEN_def)
  show "first_text d = JString []" if "opt_prop (Some d) ''candidates'' = None"
    using that by (simp add: first_text_def first_part_text_def)
  show "first_text d = JString []"
    if "opt_prop (opt_prop (opt_first (opt_prop (Some d) ''candidates'')) ''content'') ''parts'' = None"
    using that by (simp add: first_text_def first_part_text_def)
  show "Some (first_text d) = first_part_text d" if "truthy (first_part_text d)"
    using that by (cases "first_part_text d") (simp_all add: first_text_def)
  show "first_text d = JString []" if "\<not> truthy (first_part_text d)"
    using that by (cases "first_part_text d") (simp_all add: first_text_def)
qed

theorem completion_text_witness:
  "req_method post_req = ''POST'' \<and> env_apiKey (sample_env\<lparr>env_fetch := Response (completed (JObject []))\<rparr>) \<noteq> []
   \<and> req_prompt post_req = Some ''hello'' \<and> ''hello'' \<noteq> [] \<and> length ''hello'' \<le> 200000
   \<and> env_fetch (sample_env\<lparr>env_fetch := Response (completed (JObject []))\<rparr>) = Response (completed (JObject []))
   \<and> ok (completed (JObject [])) \<and> up_data (completed (JObject [])) = Inr (JObject [])
   \<and> opt_prop (Some (JObject [])) ''candidates'' = None
   \<and> handler_completion (sample_env\<lparr>env_fetch := Response (completed (JObject []))\<rparr>) post_req =
        cors @ [Fetch ''hello'', Status 200, Json (JObject [(''text'', JString [])])]
   \<and> req_subpath (post_req\<lparr>req_subpath := []\<rparr>) = []
   \<and> fst (geminiRateLimiter (env_now (sample_env\<lparr>env_fetch := Response (completed (chunk_value ''Hi''))\<rparr>)) init)
   \<and> truthy (first_part_text (chunk_value ''Hi''))
   \<and> fst (handler_router (sample_env\<lparr>env_fetch := Response (completed (chunk_value ''Hi''))\<rparr>)
          (post_req\<lparr>req_subpath := []\<rparr>) init) =
        finished (cors @ [Fetch ''hello'', Status 200, Json (JObject [(''text'', JString ''Hi'')])])"
proof -
  let ?e = "sample_env\<lparr>env_fetch := Response (completed (JObject []))\<rparr>"
  let ?f = "sample_env\<lparr>env_fetch := Response (completed (chunk_value ''Hi''))\<rparr>"
  let ?r = "post_req\<lparr>req_subpath := []\<rparr>"
  have h: "req_method post_req = ''POST''" "env_apiKey ?e \<noteq> []"
    "req_prompt post_req = Some ''hello''" "''hello'' \<noteq> []" "length ''hello'' \<le> 200000"
    "env_fetch ?e = Response (completed (JObject []))"
    "ok (completed (JObject []))" "up_data (completed (JObject [])) = Inr (JObject [])"
    by (simp_all add: post_req_def sample_env_def ok_def completed_def)
  have g: "req_method ?r = ''POST''" "env_apiKey ?f \<noteq> []"
    "req_prompt ?r = Some ''hello''" "''hello'' \<noteq> []" "length ''hello'' \<le> 200000"
    "env_fetch ?f = Response (completed (chunk_value ''Hi''))"
    "ok (completed (chunk_value ''Hi''))" "up_data (completed (chunk_value ''Hi'')) = Inr (chunk_value ''Hi'')"
    by (simp_all add: post_req_def sample_env_def ok_def completed_def)
  have c: "opt_prop (Some (JObject [])) ''candidates'' = None" by simp
  have a: "req_subpath ?r = [] \<and> fst (geminiRateLimiter (env_now ?f) init)"
    by (simp add: geminiRateLimiter_def prune_def init_def MAX_REQ_def Let_def)
  have p: "first_part_text (chunk_value ''Hi'') = Some (JString ''Hi'')"
    by (simp add: first_part_text_def chunk_value_def)
  then have tr: "truthy (first_part_text (chunk_value ''Hi''))" by simp
  note t = completion_text [OF h, of init]
  note u = completion_text [OF g, of init]
  from t c have "first_text (JObject []) = JString []" by blast
  moreover from t have "handler_completion ?e post_req =
     cors @ [Fetch ''hello'', Status 200, Json (JObject [(''text'', first_text (JObject []))])]" by blast
  moreover from u tr have "Some (first_text (chunk_value ''Hi'')) = first_part_text (chunk_value ''Hi'')" by blast
  then have "first_text (chunk_value ''Hi'') = JString ''Hi''" unfolding p by simp
  moreover from u a have "fst (handler_router ?f ?r init) =
     finished (cors @ [Fetch ''hello'', Status 200, Json (JObject [(''text'', first_text (chunk_value ''Hi''))])])"
    by blast
  ultimately show ?thesis using h c a tr by simp
qed

end
